theory Spec2Isabelle
  imports Main
begin

section \<open>Go values used by package restorer\<close>

text \<open>
  An \<open>error\<close> value. Errors made by other packages (spool, execlog, os/exec) are opaque:
  the first field of \<open>ErrorValue\<close> is the identity of the value, since Go compares
  error values of pointer type by identity (\<open>err == spool.ErrorNonExistentFile\<close>), the
  second is the text of its \<open>Error()\<close> method. \<open>WrapError msg err\<close> is what
  \<open>fmt.Errorf\<close> returns for a format with the verb \<open>%w\<close>: the formatted message and
  the wrapped error.
\<close>

datatype error = ErrorValue nat string | WrapError string error

fun errorString :: "error \<Rightarrow> string" where
  "errorString (ErrorValue _ m) = m"
| "errorString (WrapError m _) = m"


text \<open>
  \<open>fmt.Errorf(pre + "%s" + mid + "%w", s, err)\<close>: the only shape of format the
  package uses.
\<close>

definition fmt_Errorf_s_w :: "string \<Rightarrow> string \<Rightarrow> string \<Rightarrow> error \<Rightarrow> error" where
  "fmt_Errorf_s_w pre mid s err = WrapError (pre @ s @ mid @ errorString err) err"

text \<open>
  An instant as \<open>time.Now()\<close> reads it, in nanoseconds; \<open>zeroTime\<close> is the zero value of
  \<open>time.Time\<close>. \<open>Sub\<close> is \<open>Time.Sub\<close>: the difference as a \<open>Duration\<close> (an int64 of
  nanoseconds), saturating at the least and the greatest duration.
\<close>

type_synonym time = int

definition zeroTime :: time where
  "zeroTime = 0"

definition minDuration :: int where
  "minDuration = - (2 ^ 63)"

definition maxDuration :: int where
  "maxDuration = 2 ^ 63 - 1"

definition Sub :: "time \<Rightarrow> time \<Rightarrow> int" where
  "Sub t u = (let d = t - u in
     if d < minDuration then minDuration else if maxDuration < d then maxDuration else d)"

subsection \<open>Slices of strings, on a heap of backing arrays\<close>

text \<open>
  A \<open>[]string\<close> is a slice header over a backing array: the array's address, the offset
  of the slice's first element in it, its length and its capacity; or nil. The heap is
  the list of the backing arrays allocated so far, an address being a position in it.
  Slices that share an array alias each other, which is what \<open>Restore\<close> has to avoid
  when it appends to the options it was given.
\<close>

datatype stringSlice = nilStrings | Strings nat nat nat nat

type_synonym heap = "string list list"

fun len :: "stringSlice \<Rightarrow> nat" where
  "len nilStrings = 0"
| "len (Strings a off n c) = n"

fun cap :: "stringSlice \<Rightarrow> nat" where
  "cap nilStrings = 0"
| "cap (Strings a off n c) = c"

text \<open>The elements a slice shows: \<open>s[0], ..., s[len(s)-1]\<close>.\<close>

fun elems :: "heap \<Rightarrow> stringSlice \<Rightarrow> string list" where
  "elems h nilStrings = []"
| "elems h (Strings a off n c) = take n (drop off (h ! a))"

text \<open>A slice header that points into the heap: its array is allocated and holds the
  whole capacity.\<close>

fun valid_slice :: "heap \<Rightarrow> stringSlice \<Rightarrow> bool" where
  "valid_slice h nilStrings = True"
| "valid_slice h (Strings a off n c) = (a < length h \<and> n \<le> c \<and> off + c \<le> length (h ! a))"

text \<open>\<open>store_at p vs xs\<close>: the array \<open>xs\<close> after \<open>xs[p] = vs[0]; xs[p+1] = vs[1]; ...\<close>\<close>

fun store_at :: "nat \<Rightarrow> string list \<Rightarrow> string list \<Rightarrow> string list" where
  "store_at p [] xs = xs"
| "store_at p (v # vs) xs = store_at (Suc p) vs (xs[p := v])"

text \<open>
  \<open>make([]string, n, c)\<close> allocates a fresh array of \<open>c\<close> empty strings and returns the
  slice of its first \<open>n\<close> elements; it panics (\<open>None\<close>) when \<open>n > c\<close>.
\<close>

definition make_strings :: "nat \<Rightarrow> nat \<Rightarrow> heap \<Rightarrow> (stringSlice \<times> heap) option" where
  "make_strings n c h =
     (if n \<le> c then Some (Strings (length h) 0 n c, h @ [replicate c []]) else None)"

text \<open>
  \<open>copy(dst, src)\<close> copies \<open>min(len(dst), len(src))\<close> elements into the array of
  \<open>dst\<close> and returns their number.
\<close>

definition copy_strings :: "stringSlice \<Rightarrow> stringSlice \<Rightarrow> heap \<Rightarrow> nat \<times> heap" where
  "copy_strings dst src h =
     (let n = min (len dst) (len src) in
      case dst of
        nilStrings \<Rightarrow> (n, h)
      | Strings a off _ _ \<Rightarrow> (n, h[a := store_at off (take n (elems h src)) (h ! a)]))"

text \<open>
  \<open>append(s, vs...)\<close>: when the capacity of \<open>s\<close> suffices the new elements are written
  into the array of \<open>s\<close>, right after its last element, and the result shares that
  array; otherwise a new array is allocated (Go may give it spare capacity, the model
  gives it none; \<open>Restore\<close> never takes this branch).
\<close>

definition append_strings :: "stringSlice \<Rightarrow> string list \<Rightarrow> heap \<Rightarrow> stringSlice \<times> heap" where
  "append_strings s vs h =
     (if len s + length vs \<le> cap s then
        (case s of
           nilStrings \<Rightarrow> (nilStrings, h)
         | Strings a off n c \<Rightarrow>
             (Strings a off (n + length vs) c, h[a := store_at (off + n) vs (h ! a)]))
      else
        (let new = elems h s @ vs
         in (Strings (length h) 0 (length new) (length new), h @ [new])))"

section \<open>The data of package restorer\<close>

text \<open>\<open>WALRestorer\<close>: the cluster, the spool (both held by pointer, opaque here) and the
  environment of the fetch tool, which the package only hands on to the command.\<close>

record ('c, 's) WALRestorer =
  cluster :: 'c
  spool :: 's
  env :: "string list"

record Result =
  WalName :: string
  DestinationPath :: string
  Err :: "error option"
  StartTime :: time
  EndTime :: time

definition zeroResult :: Result where
  "zeroResult = \<lparr>WalName = [], DestinationPath = [], Err = None,
     StartTime = zeroTime, EndTime = zeroTime\<rparr>"

text \<open>
  A \<open>[]Result\<close>: nil, or a slice with its elements. \<open>RestoreList\<close> allocates its result
  slice itself and hands it to nobody before it returns, so its array has no alias to
  model.
\<close>

datatype resultSlice = nilResults | Results "Result list"

fun elements :: "resultSlice \<Rightarrow> Result list" where
  "elements nilResults = []"
| "elements (Results rs) = rs"

definition make_Results :: "nat \<Rightarrow> resultSlice" where
  "make_Results n = Results (replicate n zeroResult)"

text \<open>
  \<open>exec.Cmd\<close>, as far as the package sets it: \<open>Args\<close> (the program name first, as
  \<open>exec.Command\<close> builds it) and \<open>Env\<close>.
\<close>

record Cmd =
  Args :: "string list"
  Env :: "string list"

definition exec_Command :: "string \<Rightarrow> string list \<Rightarrow> Cmd" where
  "exec_Command name arg = \<lparr>Args = name # arg, Env = []\<rparr>"

subsection \<open>The log\<close>

datatype log_level = InfoLevel | WarningLevel

datatype log_value =
  VString string | VStrings "string list" | VTime time | VDuration int | VError error

record log_entry =
  level :: log_level
  msg :: string
  keysAndValues :: "(string \<times> log_value) list"

subsection \<open>The world outside, and the parts of the repository the package calls\<close>

text \<open>One run of the fetch tool: the command, the name it was run under and the error
  \<open>execlog.RunStreaming\<close> returned for it (\<open>None\<close> is nil).\<close>

record execution =
  exec_cmd :: Cmd
  exec_name :: string
  exec_err :: "error option"

text \<open>
  The state a call works on: the heap of string arrays, the history of the fetch tool's
  runs, the entries written through \<open>contextLog\<close> (the logger \<open>RestoreList\<close> takes from
  its context), and \<open>ext\<close>, everything outside the process (file system, object store,
  clock).
\<close>

record 'x world =
  heap :: heap
  execs :: "execution list"
  contextLog :: "log_entry list"
  ext :: 'x

text \<open>
  What package restorer uses and \<open>restorer.go\<close> does not define. They are parameters of
  the model, each acting on \<open>ext\<close> only:
  \<^item> the constant \<open>barmanCapabilities.BarmanCloudWalRestore\<close>, the fetch tool's name;
  \<^item> \<open>(*spool.WALSpool).FileName\<close>, \<open>(*spool.WALSpool).MoveOut\<close> and the sentinel
    \<open>spool.ErrorNonExistentFile\<close>;
  \<^item> \<open>execlog.RunStreaming\<close>: what running a command does outside and the error it
    returns;
  \<^item> \<open>time.Now\<close>.
\<close>

record ('s, 'x) deps =
  BarmanCloudWalRestore :: string
  spool_FileName :: "'s \<Rightarrow> string \<Rightarrow> string"
  spool_MoveOut :: "'s \<Rightarrow> string \<Rightarrow> string \<Rightarrow> 'x \<Rightarrow> error option \<times> 'x"
  spool_ErrorNonExistentFile :: error
  execlog_RunStreaming :: "Cmd \<Rightarrow> string \<Rightarrow> 'x \<Rightarrow> error option \<times> 'x"
  time_Now :: "'x \<Rightarrow> time \<times> 'x"

definition MoveOut ::
  "('s, 'x) deps \<Rightarrow> 's \<Rightarrow> string \<Rightarrow> string \<Rightarrow> 'x world \<Rightarrow> error option \<times> 'x world" where
  "MoveOut D sp walName destination w =
     (let (err, x) = spool_MoveOut D sp walName destination (ext w)
      in (err, w\<lparr>ext := x\<rparr>))"

text \<open>Running a command: the tool acts outside, and the run enters the history.\<close>

definition RunStreaming ::
  "('s, 'x) deps \<Rightarrow> Cmd \<Rightarrow> string \<Rightarrow> 'x world \<Rightarrow> error option \<times> 'x world" where
  "RunStreaming D cmd cmdName w =
     (let (err, x) = execlog_RunStreaming D cmd cmdName (ext w)
      in (err, w\<lparr>execs := execs w @ [\<lparr>exec_cmd = cmd, exec_name = cmdName, exec_err = err\<rparr>],
                 ext := x\<rparr>))"

definition Now :: "('s, 'x) deps \<Rightarrow> 'x world \<Rightarrow> time \<times> 'x world" where
  "Now D w = (let (t, x) = time_Now D (ext w) in (t, w\<lparr>ext := x\<rparr>))"

definition Info :: "string \<Rightarrow> (string \<times> log_value) list \<Rightarrow> 'x world \<Rightarrow> 'x world" where
  "Info m kvs w =
     w\<lparr>contextLog := contextLog w @ [\<lparr>level = InfoLevel, msg = m, keysAndValues = kvs\<rparr>]\<rparr>"

definition Warning :: "string \<Rightarrow> (string \<times> log_value) list \<Rightarrow> 'x world \<Rightarrow> 'x world" where
  "Warning m kvs w =
     w\<lparr>contextLog := contextLog w @ [\<lparr>level = WarningLevel, msg = m, keysAndValues = kvs\<rparr>]\<rparr>"

section \<open>RestoreFromSpool\<close>

definition RestoreFromSpool ::
  "('s, 'x) deps \<Rightarrow> ('c, 's) WALRestorer \<Rightarrow> string \<Rightarrow> string \<Rightarrow> 'x world
     \<Rightarrow> (bool \<times> error option) \<times> 'x world" where
  "RestoreFromSpool D restorer walName destinationPath w =
     (let (err, w) = MoveOut D (spool restorer) walName destinationPath w
      in if err = Some (spool_ErrorNonExistentFile D) then ((False, None), w)
         else if err \<noteq> None then ((False, err), w)
         else ((True, None), w))"

section \<open>Restore\<close>

definition Restore ::
  "('s, 'x) deps \<Rightarrow> ('c, 's) WALRestorer \<Rightarrow> string \<Rightarrow> string \<Rightarrow> stringSlice \<Rightarrow> 'x world
     \<Rightarrow> (error option \<times> 'x world) option" where
  "Restore D restorer walName destinationPath baseOptions w =
     (case make_strings (len baseOptions) (len baseOptions + 2) (heap w) of
        None \<Rightarrow> None
      | Some (options, h) \<Rightarrow>
          let (_, h) = copy_strings options baseOptions h;
              (options, h) = append_strings options [walName, destinationPath] h;
              barmanCloudWalRestoreCmd = exec_Command (BarmanCloudWalRestore D) (elems h options);
              barmanCloudWalRestoreCmd = barmanCloudWalRestoreCmd\<lparr>Env := env restorer\<rparr>;
              (err, w) = RunStreaming D barmanCloudWalRestoreCmd (BarmanCloudWalRestore D)
                           (w\<lparr>heap := h\<rparr>)
          in (case err of
                Some e \<Rightarrow>
                  Some (Some (fmt_Errorf_s_w ''unexpected failure invoking '' '': ''
                                (BarmanCloudWalRestore D) e), w)
              | None \<Rightarrow> Some (None, w)))"

section \<open>RestoreList\<close>

text \<open>
  The body of the goroutine that \<open>RestoreList\<close> starts for \<open>walIndex\<close>, up to its
  \<open>waitGroup.Done()\<close>. It works on the result slice and on the world; \<open>None\<close> is a
  panic (an index out of range, a panic of \<open>Restore\<close>). The writes through the pointer
  \<open>&resultList[walIndex]\<close> are the update of that one slot. The batch is only read by
  the package and is given by its elements; the options are a slice of the heap, since
  \<open>Restore\<close> copies and appends to them.
\<close>

definition worker ::
  "('s, 'x) deps \<Rightarrow> ('c, 's) WALRestorer \<Rightarrow> string list \<Rightarrow> string \<Rightarrow> stringSlice \<Rightarrow> nat
     \<Rightarrow> resultSlice \<times> 'x world \<Rightarrow> (resultSlice \<times> 'x world) option" where
  "worker D restorer fetchList destinationPath options walIndex rw =
     (case rw of (resultList, w) \<Rightarrow>
      if \<not> walIndex < length (elements resultList) then None
      else if \<not> walIndex < length fetchList then None
      else
        let result = elements resultList ! walIndex;
            result = result\<lparr>WalName := fetchList ! walIndex\<rparr>;
            result =
              (if walIndex = 0 then result\<lparr>DestinationPath := destinationPath\<rparr>
               else result\<lparr>DestinationPath :=
                      spool_FileName D (spool restorer) (WalName result)\<rparr>);
            (t, w) = Now D w;
            result = result\<lparr>StartTime := t\<rparr>
        in (case Restore D restorer (fetchList ! walIndex) (DestinationPath result) options w of
              None \<Rightarrow> None
            | Some (err, w) \<Rightarrow>
                let result = result\<lparr>Err := err\<rparr>;
                    (t, w) = Now D w;
                    result = result\<lparr>EndTime := t\<rparr>;
                    elapsedWalTime = Sub (EndTime result) (StartTime result);
                    w =
                      (if Err result = None then
                         Info ''Restored WAL file''
                           [(''walName'', VString (WalName result)),
                            (''startTime'', VTime (StartTime result)),
                            (''endTime'', VTime (EndTime result)),
                            (''elapsedWalTime'', VDuration elapsedWalTime)] w
                       else if walIndex = 0 then
                         Warning ''Failed restoring WAL: PostgreSQL will retry if needed''
                           [(''walName'', VString (WalName result)),
                            (''options'', VStrings (elems (heap w) options)),
                            (''startTime'', VTime (StartTime result)),
                            (''endTime'', VTime (EndTime result)),
                            (''elapsedWalTime'', VDuration elapsedWalTime),
                            (''error'', VError (the (Err result)))] w
                       else w)
                in Some (Results ((elements resultList)[walIndex := result]), w)))"

text \<open>
  The call as a transition system. The main thread allocates the result slice, starts
  one goroutine per index (\<open>waitGroup.Add(1)\<close>, then \<open>go\<close>), waits for the counter of
  the wait group to reach zero and returns the slice. The goroutines run in any order,
  between any two steps of the main thread. Each body is one step: the goroutines share
  the result slice, where each writes its own slot, the log, to which each adds its
  entry in one call, and the heap, where each allocates an array of its own; what the
  overlapping runs of the fetch tool do to each other outside the process is left to the
  parameter \<open>execlog_RunStreaming\<close>, which may return any error at any run. A schedule
  is the list of the steps taken:
  \<^item> \<open>Spawn\<close>: one iteration of the \<open>for\<close> loop;
  \<^item> \<open>Run i\<close>: the goroutine of index \<open>i\<close>, started and not yet run, runs to its end;
  \<^item> \<open>Return\<close>: \<open>waitGroup.Wait()\<close> lets the main thread through and it returns.
\<close>

datatype goroutine = Runnable | Finished

datatype event = Spawn | Run nat | Return

text \<open>
  \<open>goroutines\<close> lists the goroutines started so far, by index: its length is the loop
  variable \<open>idx\<close>. \<open>returned\<close> is the value the call has returned, if it has.
  \<open>panicked\<close>: the process has died of a panic.
\<close>

record 'x state =
  resultList :: resultSlice
  waitGroup :: nat
  goroutines :: "goroutine list"
  returned :: "resultSlice option"
  panicked :: bool
  world :: "'x world"

definition RestoreList_init :: "string list \<Rightarrow> 'x world \<Rightarrow> 'x state" where
  "RestoreList_init fetchList w =
     \<lparr>resultList = make_Results (length fetchList), waitGroup = 0, goroutines = [],
      returned = None, panicked = False, world = w\<rparr>"

text \<open>One step; \<open>None\<close> when the event cannot happen in the state. \<open>waitGroup.Done()\<close>
  on a counter of zero panics.\<close>

definition step ::
  "('s, 'x) deps \<Rightarrow> ('c, 's) WALRestorer \<Rightarrow> string list \<Rightarrow> string \<Rightarrow> stringSlice
     \<Rightarrow> event \<Rightarrow> 'x state \<Rightarrow> 'x state option" where
  "step D restorer fetchList destinationPath options e s =
     (if panicked s then None
      else case e of
        Spawn \<Rightarrow>
          if returned s = None \<and> length (goroutines s) < length fetchList
          then Some (s\<lparr>waitGroup := waitGroup s + 1, goroutines := goroutines s @ [Runnable]\<rparr>)
          else None
      | Run i \<Rightarrow>
          if i < length (goroutines s) \<and> goroutines s ! i = Runnable then
            (case worker D restorer fetchList destinationPath options i (resultList s, world s) of
               None \<Rightarrow> Some (s\<lparr>panicked := True\<rparr>)
             | Some (rl, w) \<Rightarrow>
                 if waitGroup s = 0 then Some (s\<lparr>resultList := rl, world := w, panicked := True\<rparr>)
                 else Some (s\<lparr>resultList := rl, world := w, waitGroup := waitGroup s - 1,
                              goroutines := (goroutines s)[i := Finished]\<rparr>))
          else None
      | Return \<Rightarrow>
          if returned s = None \<and> length (goroutines s) = length fetchList \<and> waitGroup s = 0
          then Some (s\<lparr>returned := Some (resultList s)\<rparr>)
          else None)"

fun exec ::
  "('s, 'x) deps \<Rightarrow> ('c, 's) WALRestorer \<Rightarrow> string list \<Rightarrow> string \<Rightarrow> stringSlice
     \<Rightarrow> event list \<Rightarrow> 'x state \<Rightarrow> 'x state option" where
  "exec D restorer fetchList destinationPath options [] s = Some s"
| "exec D restorer fetchList destinationPath options (e # es) s =
     (case step D restorer fetchList destinationPath options e s of
        None \<Rightarrow> None
      | Some s' \<Rightarrow> exec D restorer fetchList destinationPath options es s')"

text \<open>
  \<open>RestoreList\<close> under a schedule: the state the schedule leads to from the start of the
  call, \<open>None\<close> when the schedule is not one the call can follow. The call has returned
  \<open>r\<close> there when \<open>returned\<close> is \<open>Some r\<close>.
\<close>

definition RestoreList ::
  "('s, 'x) deps \<Rightarrow> ('c, 's) WALRestorer \<Rightarrow> string list \<Rightarrow> string \<Rightarrow> stringSlice
     \<Rightarrow> event list \<Rightarrow> 'x world \<Rightarrow> 'x state option" where
  "RestoreList D restorer fetchList destinationPath options schedule w =
     exec D restorer fetchList destinationPath options schedule (RestoreList_init fetchList w)"

text \<open>The indices of the goroutines a schedule runs, in the order it runs them: the
  order of completion.\<close>

fun run_order :: "event list \<Rightarrow> nat list" where
  "run_order [] = []"
| "run_order (Run i # es) = i # run_order es"
| "run_order (e # es) = run_order es"

section \<open>What the specification says of a unit of work\<close>

text \<open>The destination of the fetch of index \<open>i\<close>: the path PostgreSQL expects for index
  0, the spool's path for the segment otherwise.\<close>

definition destination ::
  "('s, 'x) deps \<Rightarrow> ('c, 's) WALRestorer \<Rightarrow> string list \<Rightarrow> string \<Rightarrow> nat \<Rightarrow> string" where
  "destination D restorer batch destinationPath i =
     (if i = 0 then destinationPath else spool_FileName D (spool restorer) (batch ! i))"

text \<open>The invocation contract: the fetch tool, the base options, the segment name, the
  destination path, under the restorer's environment.\<close>

definition invocation ::
  "('s, 'x) deps \<Rightarrow> ('c, 's) WALRestorer \<Rightarrow> string list \<Rightarrow> string \<Rightarrow> string \<Rightarrow> Cmd" where
  "invocation D restorer baseOptions segmentName destinationPath =
     \<lparr>Args = BarmanCloudWalRestore D # baseOptions @ [segmentName, destinationPath],
      Env = env restorer\<rparr>"

text \<open>The error \<open>Restore\<close> makes of a failure of the fetch tool.\<close>

definition restore_error :: "('s, 'x) deps \<Rightarrow> error \<Rightarrow> error" where
  "restore_error D cause =
     WrapError (''unexpected failure invoking '' @ BarmanCloudWalRestore D @ '': ''
                  @ errorString cause) cause"

text \<open>The informational entry of a restored segment, the warning of the failure of the
  demanded segment, and the entries of the unit of index \<open>i\<close> by its result: one
  informational entry on success, one warning when index 0 fails, nothing when a later
  index fails.\<close>

definition restored_entry :: "Result \<Rightarrow> log_entry" where
  "restored_entry r =
     \<lparr>level = InfoLevel, msg = ''Restored WAL file'',
      keysAndValues =
        [(''walName'', VString (WalName r)),
         (''startTime'', VTime (StartTime r)),
         (''endTime'', VTime (EndTime r)),
         (''elapsedWalTime'', VDuration (Sub (EndTime r) (StartTime r)))]\<rparr>"

definition failed_entry :: "string list \<Rightarrow> Result \<Rightarrow> log_entry" where
  "failed_entry opts r =
     \<lparr>level = WarningLevel, msg = ''Failed restoring WAL: PostgreSQL will retry if needed'',
      keysAndValues =
        [(''walName'', VString (WalName r)),
         (''options'', VStrings opts),
         (''startTime'', VTime (StartTime r)),
         (''endTime'', VTime (EndTime r)),
         (''elapsedWalTime'', VDuration (Sub (EndTime r) (StartTime r))),
         (''error'', VError (the (Err r)))]\<rparr>"

definition unit_entries :: "string list \<Rightarrow> nat \<Rightarrow> Result \<Rightarrow> log_entry list" where
  "unit_entries opts i r =
     (if Err r = None then [restored_entry r]
      else if i = 0 then [failed_entry opts r]
      else [])"

text \<open>A run \<open>x\<close> of the fetch tool is the fetch of index \<open>i\<close>: it ran the invocation
  for the segment of index \<open>i\<close> and its destination, and slot \<open>i\<close> of the results
  holds its error, as \<open>Restore\<close> wraps it (nil when it succeeded).\<close>

definition fetch_of ::
  "('s, 'x) deps \<Rightarrow> ('c, 's) WALRestorer \<Rightarrow> string list \<Rightarrow> string \<Rightarrow> string list
     \<Rightarrow> Result list \<Rightarrow> nat \<Rightarrow> execution \<Rightarrow> bool" where
  "fetch_of D restorer batch destinationPath opts results i x =
     (exec_cmd x = invocation D restorer opts (batch ! i)
                     (destination D restorer batch destinationPath i)
      \<and> exec_name x = BarmanCloudWalRestore D
      \<and> Err (results ! i) = map_option (restore_error D) (exec_err x))"

section \<open>The invariant of a call\<close>

text \<open>
  What holds of every state a schedule \<open>evs\<close> leads to, from a world \<open>w0\<close> whose heap
  holds the options: no panic; the result slice keeps its length; the goroutines that
  have finished are those the schedule has run, each once; the wait group counts the
  started goroutines that have not finished; the schedule has one step per goroutine
  started, one per goroutine run and one for the return; the call has returned only once
  all have run; a slot is untouched until its goroutine runs and then holds that unit's
  segment and destination; the fetch tool has been run once per finished unit, in the order of
  completion; the log has grown by the entries of the finished units, in that order; the
  arrays the heap held at the call are unchanged.
\<close>

definition Inv ::
  "('s, 'x) deps \<Rightarrow> ('c, 's) WALRestorer \<Rightarrow> string list \<Rightarrow> string \<Rightarrow> stringSlice
     \<Rightarrow> 'x world \<Rightarrow> event list \<Rightarrow> 'x state \<Rightarrow> bool" where
  "Inv D restorer fetchList destinationPath options w0 evs s =
     (let rl = elements (resultList s); g = goroutines s; order = run_order evs;
          opts = elems (heap w0) options
      in \<not> panicked s
       \<and> resultList s = Results rl
       \<and> length rl = length fetchList
       \<and> length g \<le> length fetchList
       \<and> distinct order
       \<and> set order = {i. i < length g \<and> g ! i = Finished}
       \<and> waitGroup s + length order = length g
       \<and> length evs = length g + length order + (case returned s of None \<Rightarrow> 0 | Some _ \<Rightarrow> 1)
       \<and> (returned s \<noteq> None \<longrightarrow>
            returned s = Some (resultList s) \<and> length order = length fetchList)
       \<and> (\<forall>i < length fetchList. i \<notin> set order \<longrightarrow> rl ! i = zeroResult)
       \<and> (\<forall>i \<in> set order. WalName (rl ! i) = fetchList ! i
            \<and> DestinationPath (rl ! i) = destination D restorer fetchList destinationPath i)
       \<and> (\<exists>new. execs (world s) = execs w0 @ new
            \<and> list_all2 (fetch_of D restorer fetchList destinationPath opts rl) order new)
       \<and> contextLog (world s)
            = contextLog w0 @ concat (map (\<lambda>i. unit_entries opts i (rl ! i)) order)
       \<and> take (length (heap w0)) (heap (world s)) = heap w0)"

section \<open>A concrete setting\<close>

text \<open>
  A setting to run the definitions in: the spool is a directory name, the world outside
  is a clock and the names of the spool's entries. \<open>time.Now\<close> reads the clock and
  advances it. The fetch tool is a stub that fails for segment \<open>B\<close> and succeeds for
  every other segment. \<open>MoveOut\<close> misses a segment that is not in the spool, fails on an
  empty destination path and moves the entry out otherwise.
\<close>

definition demo_deps :: "(string, nat \<times> string list) deps" where
  "demo_deps =
     \<lparr>BarmanCloudWalRestore = ''fetch'',
      spool_FileName = (\<lambda>sp n. sp @ ''/'' @ n),
      spool_MoveOut = (\<lambda>sp n d x.
        if n \<notin> set (snd x) then (Some (ErrorValue 0 ''missing''), x)
        else if d = [] then (Some (ErrorValue 2 ''denied''), x)
        else (None, (fst x, removeAll n (snd x)))),
      spool_ErrorNonExistentFile = ErrorValue 0 ''missing'',
      execlog_RunStreaming = (\<lambda>cmd name x.
        (if ''B'' \<in> set (Args cmd) then Some (ErrorValue 1 ''exit 1'') else None, x)),
      time_Now = (\<lambda>x. (int (fst x), (Suc (fst x), snd x)))\<rparr>"

definition demo_restorer :: "(unit, string) WALRestorer" where
  "demo_restorer = \<lparr>cluster = (), spool = ''sp'', env = [''K=V'']\<rparr>"

text \<open>The options \<open>["-v"]\<close>, a slice of length 1 and capacity 3 of an array that holds
  \<open>x\<close> and \<open>y\<close> after it: appending to it in place would overwrite them.\<close>

definition demo_options :: stringSlice where
  "demo_options = Strings 0 0 1 3"

definition demo_world :: "(nat \<times> string list) world" where
  "demo_world = \<lparr>heap = [[''-v'', ''x'', ''y'']], execs = [], contextLog = [],
     ext = (0, [''S''])\<rparr>"

text \<open>A schedule for a batch of three in which the goroutines finish in the order 1, 2,
  0, the second before the loop has started the third.\<close>

definition demo_schedule :: "event list" where
  "demo_schedule = [Spawn, Spawn, Run 1, Spawn, Run 2, Run 0, Return]"

text \<open>The batch of three segments, and what the schedule above leads to: the results,
  the runs of the fetch tool, the log, the final state. Then the same for the batch of
  the one segment \<open>B\<close>, whose fetch fails at index 0.\<close>

definition demo_batch :: "string list" where
  "demo_batch = [''A'', ''B'', ''C'']"

definition demo_results :: "Result list" where
  "demo_results =
     [\<lparr>WalName = ''A'', DestinationPath = ''D'', Err = None, StartTime = 4, EndTime = 5\<rparr>,
      \<lparr>WalName = ''B'', DestinationPath = ''sp/B'',
        Err = Some (WrapError ''unexpected failure invoking fetch: exit 1''
                      (ErrorValue 1 ''exit 1'')),
        StartTime = 0, EndTime = 1\<rparr>,
      \<lparr>WalName = ''C'', DestinationPath = ''sp/C'', Err = None, StartTime = 2, EndTime = 3\<rparr>]"

definition demo_execs :: "execution list" where
  "demo_execs =
     [\<lparr>exec_cmd = \<lparr>Args = [''fetch'', ''-v'', ''B'', ''sp/B''], Env = [''K=V'']\<rparr>,
        exec_name = ''fetch'', exec_err = Some (ErrorValue 1 ''exit 1'')\<rparr>,
      \<lparr>exec_cmd = \<lparr>Args = [''fetch'', ''-v'', ''C'', ''sp/C''], Env = [''K=V'']\<rparr>,
        exec_name = ''fetch'', exec_err = None\<rparr>,
      \<lparr>exec_cmd = \<lparr>Args = [''fetch'', ''-v'', ''A'', ''D''], Env = [''K=V'']\<rparr>,
        exec_name = ''fetch'', exec_err = None\<rparr>]"

definition demo_log :: "log_entry list" where
  "demo_log =
     [\<lparr>level = InfoLevel, msg = ''Restored WAL file'',
        keysAndValues = [(''walName'', VString ''C''), (''startTime'', VTime 2),
          (''endTime'', VTime 3), (''elapsedWalTime'', VDuration 1)]\<rparr>,
      \<lparr>level = InfoLevel, msg = ''Restored WAL file'',
        keysAndValues = [(''walName'', VString ''A''), (''startTime'', VTime 4),
          (''endTime'', VTime 5), (''elapsedWalTime'', VDuration 1)]\<rparr>]"

definition demo_final :: "(nat \<times> string list) state" where
  "demo_final =
     \<lparr>resultList = Results demo_results, waitGroup = 0,
      goroutines = [Finished, Finished, Finished],
      returned = Some (Results demo_results), panicked = False,
      world = \<lparr>heap = [[''-v'', ''x'', ''y''], [''-v'', ''B'', ''sp/B''],
                       [''-v'', ''C'', ''sp/C''], [''-v'', ''A'', ''D'']],
               execs = demo_execs, contextLog = demo_log, ext = (6, [''S''])\<rparr>\<rparr>"

definition demo_result_B :: Result where
  "demo_result_B =
     \<lparr>WalName = ''B'', DestinationPath = ''D'',
      Err = Some (WrapError ''unexpected failure invoking fetch: exit 1''
                    (ErrorValue 1 ''exit 1'')),
      StartTime = 0, EndTime = 1\<rparr>"

definition demo_final_B :: "(nat \<times> string list) state" where
  "demo_final_B =
     \<lparr>resultList = Results [demo_result_B], waitGroup = 0, goroutines = [Finished],
      returned = Some (Results [demo_result_B]), panicked = False,
      world = \<lparr>heap = [[''-v'', ''x'', ''y''], [''-v'', ''B'', ''D'']],
        execs = [\<lparr>exec_cmd = \<lparr>Args = [''fetch'', ''-v'', ''B'', ''D''], Env = [''K=V'']\<rparr>,
                   exec_name = ''fetch'', exec_err = Some (ErrorValue 1 ''exit 1'')\<rparr>],
        contextLog = [failed_entry [''-v''] demo_result_B], ext = (2, [''S''])\<rparr>\<rparr>"

section \<open>Lemmas on slices and on Restore\<close>

lemma store_at_eq:
  "p + length vs \<le> length xs \<Longrightarrow> store_at p vs xs = take p xs @ vs @ drop (p + length vs) xs"
proof (induction vs arbitrary: p xs)
  case Nil
  then show ?case by simp
next
  case (Cons v vs)
  then show ?case
    by (simp add: upd_conv_take_nth_drop take_Suc_conv_app_nth add.commute)
qed

lemma elems_heap_prefix:
  "valid_slice h s \<Longrightarrow> take (length h) h' = h \<Longrightarrow> elems h' s = elems h s"
proof (cases s)
  case nilStrings
  then show ?thesis by simp
next
  case (Strings a off n c)
  assume v: "valid_slice h s" and t: "take (length h) h' = h"
  from v Strings have "a < length h" by simp
  with t have "h' ! a = h ! a" by (metis nth_take)
  with Strings show ?thesis by simp
qed

lemma length_elems: "valid_slice h s \<Longrightarrow> length (elems h s) = len s"
  by (cases s) auto

lemma replicate_two_more: "replicate (Suc (Suc n)) x = replicate n x @ [x, x]"
  by (induction n) auto

lemma copy_into_fresh:
  assumes "valid_slice h src" and "len src = n"
  shows "copy_strings (Strings (length h) 0 n (Suc (Suc n))) src (h @ [replicate (Suc (Suc n)) []])
           = (n, h @ [elems h src @ [[], []]])"
proof -
  have e: "elems (h @ [arr]) src = elems h src" for arr
    using assms(1) by (intro elems_heap_prefix) auto
  have l: "length (elems h src) = n"
    using assms by (simp add: length_elems)
  have "store_at 0 (elems h src) (replicate n [] @ [[], []]) = elems h src @ [[], []]"
    using l by (subst store_at_eq) simp_all
  then show ?thesis
    using l by (simp add: copy_strings_def assms(2) e replicate_two_more
        del: store_at.simps replicate_Suc)
qed

lemma append_in_fresh:
  assumes "length es = n"
  shows "append_strings (Strings (length h) 0 n (Suc (Suc n))) [a, b] (h @ [es @ [[], []]])
           = (Strings (length h) 0 (Suc (Suc n)) (Suc (Suc n)), h @ [es @ [a, b]])"
proof -
  have "store_at n [a, b] (es @ [[], []]) = es @ [a, b]"
    using assms by (subst store_at_eq) simp_all
  then show ?thesis
    by (simp add: append_strings_def del: store_at.simps)
qed

lemma restore_error_eq:
  "fmt_Errorf_s_w ''unexpected failure invoking '' '': '' (BarmanCloudWalRestore D) e
     = restore_error D e"
  by (simp add: fmt_Errorf_s_w_def restore_error_def)

lemma Restore_eq:
  assumes "valid_slice (heap w) baseOptions"
  shows "Restore D r walName dest baseOptions w =
    (let cmd = invocation D r (elems (heap w) baseOptions) walName dest;
         out = execlog_RunStreaming D cmd (BarmanCloudWalRestore D) (ext w)
     in Some (map_option (restore_error D) (fst out),
          w\<lparr>heap := heap w @ [elems (heap w) baseOptions @ [walName, dest]],
            execs := execs w @
              [\<lparr>exec_cmd = cmd, exec_name = BarmanCloudWalRestore D, exec_err = fst out\<rparr>],
            ext := snd out\<rparr>))"
proof -
  have l: "length (elems (heap w) baseOptions) = len baseOptions"
    using assms by (rule length_elems)
  show ?thesis
    unfolding Restore_def make_strings_def
    by (simp add: copy_into_fresh [OF assms refl] append_in_fresh [OF l] l
        exec_Command_def RunStreaming_def Let_def split_def invocation_def restore_error_eq
        split: option.splits del: replicate_Suc)
qed

lemma Result_all_fields:
  "q\<lparr>WalName := a, DestinationPath := b, StartTime := c, Err := d, EndTime := e\<rparr>
     = \<lparr>WalName = a, DestinationPath = b, Err = d, StartTime = c, EndTime = e\<rparr>"
  by (cases q) simp

lemma worker_eq:
  assumes v: "valid_slice (heap w) options"
    and i: "i < length rl" "i < length fetchList"
  shows "\<exists>res cause w'.
      worker D r fetchList dp options i (Results rl, w) = Some (Results (rl[i := res]), w')
    \<and> WalName res = fetchList ! i
    \<and> DestinationPath res = destination D r fetchList dp i
    \<and> Err res = map_option (restore_error D) cause
    \<and> execs w' = execs w @
         [\<lparr>exec_cmd = invocation D r (elems (heap w) options) (fetchList ! i)
                        (destination D r fetchList dp i),
           exec_name = BarmanCloudWalRestore D, exec_err = cause\<rparr>]
    \<and> contextLog w' = contextLog w @ unit_entries (elems (heap w) options) i res
    \<and> heap w' = heap w @ [elems (heap w) options @ [fetchList ! i, destination D r fetchList dp i]]"
proof -
  define dest where "dest = destination D r fetchList dp i"
  define opts where "opts = elems (heap w) options"
  obtain t0 x0 where n0: "time_Now D (ext w) = (t0, x0)"
    by (cases "time_Now D (ext w)")
  obtain cause x1 where
    run: "execlog_RunStreaming D (invocation D r opts (fetchList ! i) dest)
            (BarmanCloudWalRestore D) x0 = (cause, x1)"
    by (cases "execlog_RunStreaming D (invocation D r opts (fetchList ! i) dest)
            (BarmanCloudWalRestore D) x0")
  obtain t1 x2 where n1: "time_Now D x1 = (t1, x2)"
    by (cases "time_Now D x1")
  define res where "res = \<lparr>WalName = fetchList ! i, DestinationPath = dest,
    Err = map_option (restore_error D) cause, StartTime = t0, EndTime = t1\<rparr>"
  define w' where "w' = w\<lparr>heap := heap w @ [opts @ [fetchList ! i, dest]],
    execs := execs w @ [\<lparr>exec_cmd = invocation D r opts (fetchList ! i) dest,
                          exec_name = BarmanCloudWalRestore D, exec_err = cause\<rparr>],
    contextLog := contextLog w @ unit_entries opts i res,
    ext := x2\<rparr>"
  have v0: "valid_slice (heap (w\<lparr>ext := x0\<rparr>)) options"
    using v by simp
  have e: "elems (heap w @ [a]) options = opts" for a
    unfolding opts_def using v by (intro elems_heap_prefix) auto
  have d: "i = 0 \<Longrightarrow> dest = dp" "0 < i \<Longrightarrow> dest = spool_FileName D (spool r) (fetchList ! i)"
    by (simp_all add: dest_def destination_def)
  have "worker D r fetchList dp options i (Results rl, w) = Some (Results (rl[i := res]), w')"
  proof (cases "i = 0")
    case True
    with d have "dest = dp" by simp
    with i n0 n1 run True show ?thesis
      by (simp add: worker_def Now_def Restore_eq [OF v0] Let_def e
        opts_def [symmetric] res_def w'_def unit_entries_def restored_entry_def
        failed_entry_def Info_def Warning_def Result_all_fields)
  next
    case False
    with d have "dest = spool_FileName D (spool r) (fetchList ! i)" by simp
    with i n0 n1 run False show ?thesis
      by (simp add: worker_def Now_def Restore_eq [OF v0] Let_def e
        opts_def [symmetric] res_def w'_def unit_entries_def restored_entry_def
        failed_entry_def Info_def Warning_def Result_all_fields)
  qed
  moreover have "WalName res = fetchList ! i" "DestinationPath res = dest"
    "Err res = map_option (restore_error D) cause"
    by (simp_all add: res_def)
  moreover have "execs w' = execs w @
         [\<lparr>exec_cmd = invocation D r opts (fetchList ! i) dest,
           exec_name = BarmanCloudWalRestore D, exec_err = cause\<rparr>]"
    "contextLog w' = contextLog w @ unit_entries opts i res"
    "heap w' = heap w @ [opts @ [fetchList ! i, dest]]"
    by (simp_all add: w'_def)
  ultimately show ?thesis
    unfolding dest_def opts_def by blast
qed

section \<open>The invariant holds\<close>

lemma run_order_append: "run_order (a @ b) = run_order a @ run_order b"
  by (induction a rule: run_order.induct) auto

lemma valid_slice_prefix:
  "valid_slice h s \<Longrightarrow> take (length h) h' = h \<Longrightarrow> valid_slice h' s"
proof (cases s)
  case nilStrings
  then show ?thesis by simp
next
  case (Strings a off n c)
  assume v: "valid_slice h s" and t: "take (length h) h' = h"
  from v Strings have a: "a < length h" by simp
  with t have "h' ! a = h ! a" by (metis nth_take)
  moreover from arg_cong [OF t, of length] have "length h \<le> length h'"
    by simp
  ultimately show ?thesis using v Strings a by simp
qed

lemma Inv_init:
  "Inv D r fl dp opts w0 [] (RestoreList_init fl w0)"
  by (simp add: Inv_def RestoreList_init_def make_Results_def)

lemma Inv_Spawn:
  assumes "Inv D r fl dp opts w0 evs s"
    and "step D r fl dp opts Spawn s = Some s'"
  shows "Inv D r fl dp opts w0 (evs @ [Spawn]) s'"
proof -
  from assms(2) have g: "length (goroutines s) < length fl" and
    s': "s' = s\<lparr>waitGroup := waitGroup s + 1, goroutines := goroutines s @ [Runnable]\<rparr>"
    by (auto simp: step_def split: if_splits)
  have "{i. i < Suc (length (goroutines s)) \<and> (goroutines s @ [Runnable]) ! i = Finished}
      = {i. i < length (goroutines s) \<and> goroutines s ! i = Finished}"
    by (auto simp: nth_append less_Suc_eq)
  moreover from assms(2) have "returned s = None"
    by (auto simp: step_def split: if_splits)
  ultimately show ?thesis
    using assms(1) g unfolding s' Inv_def Let_def by (simp add: run_order_append)
qed

lemma Inv_Return:
  assumes "Inv D r fl dp opts w0 evs s"
    and "step D r fl dp opts Return s = Some s'"
  shows "Inv D r fl dp opts w0 (evs @ [Return]) s'"
proof -
  from assms(2) have g: "length (goroutines s) = length fl" "waitGroup s = 0" and
    s': "s' = s\<lparr>returned := Some (resultList s)\<rparr>"
    by (auto simp: step_def split: if_splits)
  from assms(2) have "returned s = None"
    by (auto simp: step_def split: if_splits)
  with g assms(1) show ?thesis
    unfolding s' Inv_def Let_def by (simp add: run_order_append)
qed

lemma Inv_Run:
  assumes I: "Inv D r fl dp opts w0 evs s"
    and v: "valid_slice (heap w0) opts"
    and st: "step D r fl dp opts (Run i) s = Some s'"
  shows "Inv D r fl dp opts w0 (evs @ [Run i]) s'"
proof -
  define rl where "rl = elements (resultList s)"
  define g where "g = goroutines s"
  define order where "order = run_order evs"
  define os where "os = elems (heap w0) opts"
  from I have np: "\<not> panicked s"
    and rs: "resultList s = Results rl"
    and lrl: "length rl = length fl"
    and lg: "length g \<le> length fl"
    and dist: "distinct order"
    and fin: "set order = {i. i < length g \<and> g ! i = Finished}"
    and wg: "waitGroup s + length order = length g"
    and cnt: "length evs = length g + length order
            + (case returned s of None \<Rightarrow> 0 | Some _ \<Rightarrow> 1)"
    and ret: "returned s \<noteq> None \<longrightarrow>
            returned s = Some (resultList s) \<and> length order = length fl"
    and zero: "\<forall>i < length fl. i \<notin> set order \<longrightarrow> rl ! i = zeroResult"
    and names: "\<forall>i \<in> set order. WalName (rl ! i) = fl ! i
            \<and> DestinationPath (rl ! i) = destination D r fl dp i"
    and log: "contextLog (world s)
            = contextLog w0 @ concat (map (\<lambda>i. unit_entries os i (rl ! i)) order)"
    and hp: "take (length (heap w0)) (heap (world s)) = heap w0"
    unfolding Inv_def Let_def rl_def g_def order_def os_def by simp_all
  from I obtain new where ex: "execs (world s) = execs w0 @ new"
    and all2: "list_all2 (fetch_of D r fl dp os rl) order new"
    unfolding Inv_def Let_def rl_def g_def order_def os_def by blast
  from st np have ig: "i < length g" and run: "g ! i = Runnable"
    by (auto simp: step_def g_def split: if_splits)
  from run fin have inot: "i \<notin> set order" by auto
  from ig lg lrl have i: "i < length rl" "i < length fl" by simp_all
  from v hp have vs: "valid_slice (heap (world s)) opts"
    by (rule valid_slice_prefix)
  from v hp have os: "elems (heap (world s)) opts = os"
    unfolding os_def by (rule elems_heap_prefix)
  from worker_eq [OF vs i, of D r dp] obtain res cause w' where
    wk: "worker D r fl dp opts i (Results rl, world s) = Some (Results (rl[i := res]), w')"
    and wn: "WalName res = fl ! i"
    and dn: "DestinationPath res = destination D r fl dp i"
    and er: "Err res = map_option (restore_error D) cause"
    and ex': "execs w' = execs (world s) @
         [\<lparr>exec_cmd = invocation D r os (fl ! i) (destination D r fl dp i),
           exec_name = BarmanCloudWalRestore D, exec_err = cause\<rparr>]"
    and log': "contextLog w' = contextLog (world s) @ unit_entries os i res"
    and hp': "heap w' = heap (world s) @ [os @ [fl ! i, destination D r fl dp i]]"
    unfolding os by blast
  have "set order \<subseteq> {..<length g} - {i}"
    using fin inot by auto
  then have "card (set order) \<le> card ({..<length g} - {i})"
    by (intro card_mono) auto
  with dist ig have lo: "length order < length g"
    by (simp add: distinct_card)
  with wg have wg0: "waitGroup s \<noteq> 0" by simp
  from lo lg ret have nret: "returned s = None" by auto
  from st np ig run wk wg0 rs have s': "s' = s\<lparr>resultList := Results (rl[i := res]),
      world := w', waitGroup := waitGroup s - 1, goroutines := g[i := Finished]\<rparr>"
    by (simp add: step_def g_def)
  have same: "rl[i := res] ! j = rl ! j" if "j \<in> set order" for j
  proof -
    from that inot have "i \<noteq> j" by blast
    then show ?thesis by simp
  qed
  have o': "run_order (evs @ [Run i]) = order @ [i]"
    by (simp add: run_order_append order_def)
  have c1: "distinct (order @ [i])"
    using dist inot by simp
  have c2: "set (order @ [i]) = {j. j < length (g[i := Finished]) \<and> g[i := Finished] ! j = Finished}"
    using fin ig by (auto simp: nth_list_update)
  have c3: "waitGroup s - 1 + length (order @ [i]) = length (g[i := Finished])"
    using wg wg0 by simp
  have c4: "\<forall>j < length fl. j \<notin> set (order @ [i]) \<longrightarrow> rl[i := res] ! j = zeroResult"
    using zero by (auto simp: nth_list_update)
  have c5: "\<forall>j \<in> set (order @ [i]). WalName (rl[i := res] ! j) = fl ! j
            \<and> DestinationPath (rl[i := res] ! j) = destination D r fl dp j"
    using names wn dn i by (auto simp: nth_list_update)
  have "list_all2 (fetch_of D r fl dp os (rl[i := res])) order new"
    using all2 by (rule list.rel_mono_strong) (simp add: fetch_of_def same)
  moreover have "fetch_of D r fl dp os (rl[i := res]) i
       \<lparr>exec_cmd = invocation D r os (fl ! i) (destination D r fl dp i),
           exec_name = BarmanCloudWalRestore D, exec_err = cause\<rparr>"
    using i er by (simp add: fetch_of_def)
  ultimately have c6: "list_all2 (fetch_of D r fl dp os (rl[i := res])) (order @ [i])
       (new @ [\<lparr>exec_cmd = invocation D r os (fl ! i) (destination D r fl dp i),
           exec_name = BarmanCloudWalRestore D, exec_err = cause\<rparr>])"
    by (intro list_all2_appendI) simp_all
  have "concat (map (\<lambda>j. unit_entries os j (rl[i := res] ! j)) order)
      = concat (map (\<lambda>j. unit_entries os j (rl ! j)) order)"
    by (rule arg_cong [where f = concat], rule map_cong) (simp_all add: same)
  then have c7: "contextLog w' = contextLog w0
      @ concat (map (\<lambda>j. unit_entries os j (rl[i := res] ! j)) (order @ [i]))"
    using log log' i by simp
  from arg_cong [OF hp, of length] have "length (heap w0) \<le> length (heap (world s))"
    by simp
  then have c8: "take (length (heap w0)) (heap w') = heap w0"
    using hp hp' by simp
  show ?thesis
    unfolding Inv_def Let_def s' o' os_def [symmetric]
    using np lrl lg c1 c2 c3 c4 c5 c6 c7 c8 nret ex ex' cnt
    by (simp add: g_def)
qed


lemma Inv_step:
  assumes "Inv D r fl dp opts w0 evs s" and "valid_slice (heap w0) opts"
    and "step D r fl dp opts e s = Some s'"
  shows "Inv D r fl dp opts w0 (evs @ [e]) s'"
  using assms by (cases e) (auto intro: Inv_Spawn Inv_Run Inv_Return)

lemma Inv_exec:
  assumes "valid_slice (heap w0) opts"
  shows "Inv D r fl dp opts w0 evs s \<Longrightarrow> exec D r fl dp opts es s = Some s'
    \<Longrightarrow> Inv D r fl dp opts w0 (evs @ es) s'"
proof (induction es arbitrary: evs s)
  case Nil
  then show ?case by simp
next
  case (Cons e es)
  from Cons.prems(2) obtain s1 where s1: "step D r fl dp opts e s = Some s1"
    and rest: "exec D r fl dp opts es s1 = Some s'"
    by (auto split: option.splits)
  from Cons.prems(1) assms s1 have "Inv D r fl dp opts w0 (evs @ [e]) s1"
    by (rule Inv_step)
  from Cons.IH [OF this rest] show ?case by simp
qed

lemma Inv_RestoreList:
  assumes "valid_slice (heap w) opts"
    and "RestoreList D r fl dp opts schedule w = Some s"
  shows "Inv D r fl dp opts w schedule s"
  using Inv_exec [OF assms(1) Inv_init, of D r fl dp schedule s] assms(2)
  by (simp add: RestoreList_def)

lemma Inv_all_finished:
  assumes "Inv D r fl dp opts w evs s" and "returned s \<noteq> None"
  shows "set (run_order evs) = {..<length fl}"
    and "goroutines s = replicate (length fl) Finished"
    and "waitGroup s = 0"
proof -
  define g where "g = goroutines s"
  define order where "order = run_order evs"
  from assms have lg: "length g \<le> length fl"
    and dist: "distinct order"
    and fin: "set order = {i. i < length g \<and> g ! i = Finished}"
    and wg: "waitGroup s + length order = length g"
    and lo: "length order = length fl"
    unfolding Inv_def Let_def g_def order_def by simp_all
  from wg lo lg have lg': "length g = length fl" and w0: "waitGroup s = 0" by simp_all
  from fin lg' have sub: "set order \<subseteq> {..<length fl}" by auto
  from dist lo have "card (set order) = card {..<length fl}"
    by (simp add: distinct_card)
  with sub have eq: "set order = {..<length fl}"
    by (intro card_subset_eq) auto
  with fin lg' have "\<forall>i < length fl. g ! i = Finished" by auto
  with lg' have "g = replicate (length fl) Finished"
    by (simp add: list_eq_iff_nth_eq)
  with eq w0 show "set (run_order evs) = {..<length fl}"
    and "goroutines s = replicate (length fl) Finished"
    and "waitGroup s = 0"
    unfolding g_def order_def by simp_all
qed

lemma progress:
  assumes I: "Inv D r fl dp opts w evs s" and v: "valid_slice (heap w) opts"
    and nr: "returned s = None"
  shows "\<exists>e s'. step D r fl dp opts e s = Some s'"
proof -
  define g where "g = goroutines s"
  define order where "order = run_order evs"
  from I have np: "\<not> panicked s" and lg: "length g \<le> length fl"
    and dist: "distinct order"
    and fin: "set order = {i. i < length g \<and> g ! i = Finished}"
    and wg: "waitGroup s + length order = length g"
    unfolding Inv_def Let_def g_def order_def by simp_all
  show ?thesis
  proof (cases "length g < length fl")
    case True
    with np nr have "step D r fl dp opts Spawn s
      = Some (s\<lparr>waitGroup := waitGroup s + 1, goroutines := goroutines s @ [Runnable]\<rparr>)"
      by (simp add: step_def g_def)
    then show ?thesis by blast
  next
    case False
    with lg have lg': "length g = length fl" by simp
    show ?thesis
    proof (cases "\<exists>i < length g. g ! i = Runnable")
      case True
      then obtain i where i: "i < length g" "g ! i = Runnable" by blast
      have "step D r fl dp opts (Run i) s \<noteq> None"
        using np i by (simp add: step_def g_def split: option.splits)
      then show ?thesis by blast
    next
      case False
      then have "\<forall>i < length g. g ! i = Finished"
        by (metis goroutine.exhaust)
      with fin have "set order = {..<length g}" by auto
      with dist have "length order = length g"
        by (metis card_lessThan distinct_card)
      with wg have "waitGroup s = 0" by simp
      with np nr lg' have "step D r fl dp opts Return s
          = Some (s\<lparr>returned := Some (resultList s)\<rparr>)"
        by (simp add: step_def g_def)
      then show ?thesis by blast
    qed
  qed
qed

lemma Inv_bound:
  assumes "Inv D r fl dp opts w evs s"
  shows "length evs \<le> 2 * length fl + 1"
proof -
  from assms have lg: "length (goroutines s) \<le> length fl"
    and wg: "waitGroup s + length (run_order evs) = length (goroutines s)"
    and cnt: "length evs = length (goroutines s) + length (run_order evs)
            + (case returned s of None \<Rightarrow> 0 | Some _ \<Rightarrow> 1)"
    unfolding Inv_def Let_def by simp_all
  then show ?thesis by (cases "returned s") simp_all
qed

lemma can_finish:
  assumes v: "valid_slice (heap w) opts"
  shows "Inv D r fl dp opts w evs s
    \<Longrightarrow> \<exists>es s'. exec D r fl dp opts es s = Some s' \<and> returned s' \<noteq> None"
proof (induction "2 * length fl + 1 - length evs" arbitrary: evs s rule: less_induct)
  case less
  show ?case
  proof (cases "returned s")
    case (Some a)
    then have "exec D r fl dp opts [] s = Some s \<and> returned s \<noteq> None" by simp
    then show ?thesis by blast
  next
    case None
    from progress [OF less.prems v None] obtain e s1
      where st: "step D r fl dp opts e s = Some s1" by blast
    from less.prems v st have I1: "Inv D r fl dp opts w (evs @ [e]) s1"
      by (rule Inv_step)
    from Inv_bound [OF I1] have "2 * length fl + 1 - length (evs @ [e])
        < 2 * length fl + 1 - length evs" by simp
    from less.hyps [OF this I1] obtain es s' where
      "exec D r fl dp opts es s1 = Some s'" "returned s' \<noteq> None" by blast
    with st have "exec D r fl dp opts (e # es) s = Some s' \<and> returned s' \<noteq> None"
      by simp
    then show ?thesis by blast
  qed
qed

lemma exec_append:
  "exec D r fl dp opts (a @ b) s =
     (case exec D r fl dp opts a s of None \<Rightarrow> None | Some s' \<Rightarrow> exec D r fl dp opts b s')"
  by (induction a arbitrary: s) (auto split: option.splits)

text \<open>A call never dies: wherever a schedule has led it, it has not panicked, it can go
  on to its return, and unless it has returned it can take a step.\<close>

lemma RestoreList_never_dies:
  assumes v: "valid_slice (heap w) opts"
    and run: "RestoreList D r fl dp opts schedule w = Some s"
  shows "\<not> panicked s"
    and "\<exists>es s'. RestoreList D r fl dp opts (schedule @ es) w = Some s' \<and> returned s' \<noteq> None"
    and "returned s = None \<longrightarrow> (\<exists>e s'. step D r fl dp opts e s = Some s')"
proof -
  from Inv_RestoreList [OF v run] have I: "Inv D r fl dp opts w schedule s" .
  from I show "\<not> panicked s"
    unfolding Inv_def Let_def by blast
  from can_finish [OF v I] obtain es s' where
    "exec D r fl dp opts es s = Some s'" "returned s' \<noteq> None" by blast
  with run have "RestoreList D r fl dp opts (schedule @ es) w = Some s' \<and> returned s' \<noteq> None"
    by (simp add: RestoreList_def exec_append)
  then show "\<exists>es s'. RestoreList D r fl dp opts (schedule @ es) w = Some s'
      \<and> returned s' \<noteq> None"
    by blast
  show "returned s = None \<longrightarrow> (\<exists>e s'. step D r fl dp opts e s = Some s')"
    using progress [OF I v] by blast
qed

text \<open>A goroutine writes no slot of the results but its own.\<close>

lemma worker_only_own_slot:
  assumes "worker D r fl dp opts i (rl, w) = Some (rl', w')"
  shows "length (elements rl') = length (elements rl)"
    and "\<forall>j. j \<noteq> i \<longrightarrow> elements rl' ! j = elements rl ! j"
  using assms
  by (auto simp: worker_def Let_def split_def split: if_splits option.splits)

section \<open>Restore, RestoreFromSpool and the empty batch\<close>


text \<open>
  C6. For every segment name, destination path and list of base options (a slice of
  the heap), \<open>Restore\<close> returns without a panic having run the fetch tool exactly once:
  the history of runs grows by one run, whose argument vector is the tool's name
  followed by the base options, the segment name and the destination path, in that
  order and nothing else, under the restorer's environment. The error recorded for the
  run and the world outside after the call are what \<open>execlog.RunStreaming\<close> makes of
  that one command, applied once to the world outside of before.
\<close>

theorem Restore_invokes_fetch_tool_once:
  assumes "valid_slice (heap w) baseOptions"
  shows "\<exists>err w' x. Restore D restorer walName destinationPath baseOptions w = Some (err, w')
    \<and> execs w' = execs w @ [x]
    \<and> Args (exec_cmd x)
        = BarmanCloudWalRestore D # elems (heap w) baseOptions @ [walName, destinationPath]
    \<and> Env (exec_cmd x) = env restorer
    \<and> exec_name x = BarmanCloudWalRestore D
    \<and> exec_err x
        = fst (execlog_RunStreaming D (exec_cmd x) (BarmanCloudWalRestore D) (ext w))
    \<and> ext w' = snd (execlog_RunStreaming D (exec_cmd x) (BarmanCloudWalRestore D) (ext w))"
proof -
  define cmd where "cmd = invocation D restorer (elems (heap w) baseOptions) walName destinationPath"
  define out where "out = execlog_RunStreaming D cmd (BarmanCloudWalRestore D) (ext w)"
  define x where "x = \<lparr>exec_cmd = cmd, exec_name = BarmanCloudWalRestore D, exec_err = fst out\<rparr>"
  define w' where "w' = w\<lparr>heap := heap w @ [elems (heap w) baseOptions @ [walName, destinationPath]],
            execs := execs w @ [x], ext := snd out\<rparr>"
  have "Restore D restorer walName destinationPath baseOptions w
      = Some (map_option (restore_error D) (fst out), w')"
    unfolding Restore_eq [OF assms] Let_def cmd_def out_def x_def w'_def ..
  moreover have "execs w' = execs w @ [x]"
    by (simp add: w'_def)
  moreover have "Args (exec_cmd x)
        = BarmanCloudWalRestore D # elems (heap w) baseOptions @ [walName, destinationPath]"
    "Env (exec_cmd x) = env restorer" "exec_name x = BarmanCloudWalRestore D"
    by (simp_all add: x_def cmd_def invocation_def)
  moreover have "exec_err x
        = fst (execlog_RunStreaming D (exec_cmd x) (BarmanCloudWalRestore D) (ext w))"
    "ext w' = snd (execlog_RunStreaming D (exec_cmd x) (BarmanCloudWalRestore D) (ext w))"
    by (simp_all add: x_def w'_def out_def)
  ultimately show ?thesis by blast
qed


text \<open>
  C4. \<open>RestoreFromSpool\<close> has one of three outcomes, decided by what the spool's
  \<open>MoveOut\<close> returns: (true, nil) when it returns nil (the entry was there and has been
  moved), (false, nil) when it returns \<open>ErrorNonExistentFile\<close> (a miss is no fault),
  (false, the error) for any other error. In all three the world changes only outside
  the process, as \<open>MoveOut\<close> left it: the history of runs of the fetch tool is the same,
  so the tool is never invoked.
\<close>

theorem RestoreFromSpool_tri_state:
  assumes "spool_MoveOut D (spool restorer) walName destinationPath (ext w) = (err, x)"
  shows "(err = None \<longrightarrow>
            fst (RestoreFromSpool D restorer walName destinationPath w) = (True, None))
    \<and> (err = Some (spool_ErrorNonExistentFile D) \<longrightarrow>
            fst (RestoreFromSpool D restorer walName destinationPath w) = (False, None))
    \<and> (err \<noteq> None \<and> err \<noteq> Some (spool_ErrorNonExistentFile D) \<longrightarrow>
            fst (RestoreFromSpool D restorer walName destinationPath w) = (False, err))
    \<and> snd (RestoreFromSpool D restorer walName destinationPath w) = w\<lparr>ext := x\<rparr>
    \<and> execs (snd (RestoreFromSpool D restorer walName destinationPath w)) = execs w"
  using assms by (simp add: RestoreFromSpool_def MoveOut_def)

subsection \<open>The empty batch\<close>

lemma step_no_goroutines:
  assumes "goroutines s = []" and "step D r [] dp opts e s = Some s'"
  shows "e = Return \<and> returned s = None \<and> s' = s\<lparr>returned := Some (resultList s)\<rparr>"
  using assms by (cases e) (auto simp: step_def split: if_splits)

lemma exec_empty_batch:
  assumes "exec D r [] dp opts evs s = Some s'" and "goroutines s = []" and "returned s = None"
  shows "(evs = [] \<and> s' = s) \<or> (evs = [Return] \<and> s' = s\<lparr>returned := Some (resultList s)\<rparr>)"
proof (cases evs)
  case Nil
  with assms show ?thesis by simp
next
  case (Cons e es)
  with assms(1) obtain s1 where s1: "step D r [] dp opts e s = Some s1"
    and rest: "exec D r [] dp opts es s1 = Some s'"
    by (auto split: option.splits)
  from step_no_goroutines [OF assms(2) s1]
  have e: "e = Return" and s1': "s1 = s\<lparr>returned := Some (resultList s)\<rparr>" by simp_all
  have "es = []"
  proof (cases es)
    case Nil
    then show ?thesis .
  next
    case (Cons e2 es2)
    with rest obtain s2 where "step D r [] dp opts e2 s1 = Some s2"
      by (auto split: option.splits)
    from step_no_goroutines [OF _ this] assms(2) s1' show ?thesis by simp
  qed
  with rest e s1' Cons show ?thesis by simp
qed

text \<open>
  C9. For an empty batch the call can return, and whenever it has returned, under any
  schedule, the schedule was the single step of returning, the result is a slice of
  length zero that is not nil, and the world is as it was: the fetch tool has not been
  run and nothing has been logged.
\<close>

theorem RestoreList_empty_batch:
  "RestoreList D restorer [] destinationPath options [Return] w
     = Some ((RestoreList_init [] w)\<lparr>returned := Some (Results [])\<rparr>)
   \<and> (\<forall>schedule s res.
         RestoreList D restorer [] destinationPath options schedule w = Some s
         \<and> returned s = Some res \<longrightarrow>
           schedule = [Return] \<and> res = Results [] \<and> res \<noteq> nilResults
           \<and> execs (world s) = execs w \<and> contextLog (world s) = contextLog w
           \<and> world s = w)"
proof (intro conjI allI impI)
  show "RestoreList D restorer [] destinationPath options [Return] w
     = Some ((RestoreList_init [] w)\<lparr>returned := Some (Results [])\<rparr>)"
    by (simp add: RestoreList_def RestoreList_init_def step_def make_Results_def)
next
  fix schedule s res
  assume a: "RestoreList D restorer [] destinationPath options schedule w = Some s
         \<and> returned s = Some res"
  then have "exec D restorer [] destinationPath options schedule (RestoreList_init [] w) = Some s"
    by (simp add: RestoreList_def)
  from exec_empty_batch [OF this] a
  have "schedule = [Return] \<and> s = (RestoreList_init [] w)\<lparr>returned := Some (resultList (RestoreList_init [] w))\<rparr>"
    by (auto simp: RestoreList_init_def)
  with a show "schedule = [Return]" "res = Results []" "res \<noteq> nilResults"
    "execs (world s) = execs w" "contextLog (world s) = contextLog w" "world s = w"
    by (auto simp: RestoreList_init_def make_Results_def)
qed

subsection \<open>The concrete setting, evaluated\<close>

lemma demo_valid: "valid_slice (heap demo_world) demo_options"
  by (simp add: demo_world_def demo_options_def)

lemma demo_elems: "elems (heap demo_world) demo_options = [''-v'']"
  by (simp add: demo_world_def demo_options_def)

lemma demo_Restore_B:
  "Restore demo_deps demo_restorer ''B'' ''D'' demo_options demo_world
     = Some (Some (WrapError ''unexpected failure invoking fetch: exit 1''
                     (ErrorValue 1 ''exit 1'')),
             demo_world\<lparr>heap := [[''-v'', ''x'', ''y''], [''-v'', ''B'', ''D'']],
               execs := [\<lparr>exec_cmd = \<lparr>Args = [''fetch'', ''-v'', ''B'', ''D''],
                                        Env = [''K=V'']\<rparr>,
                          exec_name = ''fetch'', exec_err = Some (ErrorValue 1 ''exit 1'')\<rparr>]\<rparr>)"
  by (simp add: Restore_eq [OF demo_valid] Let_def invocation_def restore_error_def demo_elems)
    (simp add: demo_world_def demo_deps_def demo_restorer_def)

theorem Restore_invokes_fetch_tool_once_witness:
  "valid_slice (heap demo_world) demo_options
   \<and> map exec_cmd (execs (snd (the
         (Restore demo_deps demo_restorer ''A'' ''D'' demo_options demo_world))))
       = [\<lparr>Args = [''fetch'', ''-v'', ''A'', ''D''], Env = [''K=V'']\<rparr>]"
proof -
  from Restore_invokes_fetch_tool_once [OF demo_valid, of demo_deps demo_restorer "''A''" "''D''"]
  obtain err w' x where
    r: "Restore demo_deps demo_restorer ''A'' ''D'' demo_options demo_world = Some (err, w')"
    and e: "execs w' = execs demo_world @ [x]"
    and a: "Args (exec_cmd x) = BarmanCloudWalRestore demo_deps
              # elems (heap demo_world) demo_options @ [''A'', ''D'']"
    and v: "Env (exec_cmd x) = env demo_restorer"
    by blast
  from a v have "exec_cmd x = \<lparr>Args = [''fetch'', ''-v'', ''A'', ''D''], Env = [''K=V'']\<rparr>"
    by (cases "exec_cmd x") (simp add: demo_elems demo_deps_def demo_restorer_def)
  with r e demo_valid show ?thesis
    by (simp add: demo_world_def)
qed


theorem RestoreFromSpool_tri_state_witness:
  "RestoreFromSpool demo_deps demo_restorer ''S'' ''D'' demo_world
      = ((True, None), demo_world\<lparr>ext := (0, [])\<rparr>)
   \<and> RestoreFromSpool demo_deps demo_restorer ''T'' ''D'' demo_world
      = ((False, None), demo_world)
   \<and> RestoreFromSpool demo_deps demo_restorer ''S'' [] demo_world
      = ((False, Some (ErrorValue 2 ''denied'')), demo_world)"
proof -
  have m1: "spool_MoveOut demo_deps (spool demo_restorer) ''S'' ''D'' (ext demo_world)
      = (None, (0, []))"
    and m2: "spool_MoveOut demo_deps (spool demo_restorer) ''T'' ''D'' (ext demo_world)
      = (Some (ErrorValue 0 ''missing''), (0, [''S'']))"
    and m3: "spool_MoveOut demo_deps (spool demo_restorer) ''S'' [] (ext demo_world)
      = (Some (ErrorValue 2 ''denied''), (0, [''S'']))"
    by (simp_all add: demo_deps_def demo_world_def)
  have s: "spool_ErrorNonExistentFile demo_deps = ErrorValue 0 ''missing''"
    by (simp add: demo_deps_def)
  from RestoreFromSpool_tri_state [OF m1] RestoreFromSpool_tri_state [OF m2]
    RestoreFromSpool_tri_state [OF m3]
  show ?thesis
    by (simp add: s prod_eq_iff) (simp add: demo_world_def)
qed

theorem RestoreList_empty_batch_witness:
  "RestoreList demo_deps demo_restorer [] ''D'' demo_options [Return] demo_world
     = Some ((RestoreList_init [] demo_world)\<lparr>returned := Some (Results [])\<rparr>)
   \<and> returned ((RestoreList_init [] demo_world)\<lparr>returned := Some (Results [])\<rparr>)
       = Some (Results [])
   \<and> world ((RestoreList_init [] demo_world)\<lparr>returned := Some (Results [])\<rparr>) = demo_world"
  using RestoreList_empty_batch [of demo_deps demo_restorer "''D''" demo_options demo_world]
  by (simp add: RestoreList_init_def)

section \<open>RestoreList: results, failures, destinations, log and options\<close>

lemma Inv_returned:
  assumes "Inv D r fl dp opts w evs s" and "returned s = Some res"
  shows "res = Results (elements res)" and "resultList s = res"
    and "length (elements res) = length fl"
  using assms unfolding Inv_def Let_def by auto

lemma Inv_slots:
  assumes "Inv D r fl dp opts w evs s" and "i \<in> set (run_order evs)"
  shows "WalName (elements (resultList s) ! i) = fl ! i"
    and "DestinationPath (elements (resultList s) ! i) = destination D r fl dp i"
  using assms unfolding Inv_def Let_def by blast+

lemma Inv_distinct:
  assumes "Inv D r fl dp opts w evs s"
  shows "distinct (run_order evs)" and "\<not> panicked s"
  using assms unfolding Inv_def Let_def by blast+

lemma Inv_execs:
  assumes "Inv D r fl dp opts w evs s"
  shows "\<exists>new. execs (world s) = execs w @ new
          \<and> list_all2 (fetch_of D r fl dp (elems (heap w) opts) (elements (resultList s)))
               (run_order evs) new"
  using assms unfolding Inv_def Let_def by blast

lemma Inv_log:
  assumes "Inv D r fl dp opts w evs s"
  shows "contextLog (world s) = contextLog w
     @ concat (map (\<lambda>i. unit_entries (elems (heap w) opts) i (elements (resultList s) ! i))
         (run_order evs))"
  using assms unfolding Inv_def Let_def by blast

lemma Inv_heap:
  assumes "Inv D r fl dp opts w evs s"
  shows "take (length (heap w)) (heap (world s)) = heap w"
  using assms unfolding Inv_def Let_def by blast

lemma Inv_length:
  assumes "Inv D r fl dp opts w evs s" and "returned s \<noteq> None"
  shows "length evs = 2 * length fl + 1"
proof -
  from assms(1) have "length evs = length (goroutines s) + length (run_order evs)
            + (case returned s of None \<Rightarrow> 0 | Some _ \<Rightarrow> 1)"
    and "returned s \<noteq> None \<longrightarrow> length (run_order evs) = length fl"
    unfolding Inv_def Let_def by blast+
  with assms(2) Inv_all_finished(2) [OF assms] show ?thesis by auto
qed

text \<open>
  C3. For a batch of length N whose options are a slice of the heap, the call can run to
  its return, and whenever it has returned, under any schedule: the result has exactly N
  entries and entry \<open>i\<close> carries the name \<open>batch[i]\<close>, whatever the order in which the
  goroutines finished; every goroutine has been started and has finished, each index
  having run exactly once, and the wait group is at zero: the call returns only after
  every unit it dispatched has completed. The schedule then has 2N + 1 steps, and the
  process has not panicked. Moreover, wherever a schedule has led the call, it has not
  panicked and can go on to its return.
\<close>

theorem RestoreList_results_in_input_order:
  assumes "valid_slice (heap w) options"
  shows "(\<exists>schedule s. RestoreList D restorer fetchList destinationPath options schedule w = Some s
            \<and> returned s \<noteq> None)
    \<and> (\<forall>schedule s res.
          RestoreList D restorer fetchList destinationPath options schedule w = Some s
          \<and> returned s = Some res \<longrightarrow>
            length (elements res) = length fetchList
          \<and> (\<forall>i < length fetchList. WalName (elements res ! i) = fetchList ! i)
          \<and> res = resultList s
          \<and> distinct (run_order schedule)
          \<and> set (run_order schedule) = {..<length fetchList}
          \<and> goroutines s = replicate (length fetchList) Finished
          \<and> waitGroup s = 0
          \<and> \<not> panicked s
          \<and> length schedule = 2 * length fetchList + 1)
    \<and> (\<forall>schedule s.
          RestoreList D restorer fetchList destinationPath options schedule w = Some s \<longrightarrow>
            \<not> panicked s
          \<and> (\<exists>es s'. RestoreList D restorer fetchList destinationPath options (schedule @ es) w
                         = Some s' \<and> returned s' \<noteq> None))"
proof -
  from can_finish [OF assms Inv_init, of D restorer fetchList destinationPath]
  have 1: "\<exists>schedule s. RestoreList D restorer fetchList destinationPath options schedule w = Some s
            \<and> returned s \<noteq> None"
    by (simp add: RestoreList_def)
  have 2: "length (elements res) = length fetchList
          \<and> (\<forall>i < length fetchList. WalName (elements res ! i) = fetchList ! i)
          \<and> res = resultList s
          \<and> distinct (run_order schedule)
          \<and> set (run_order schedule) = {..<length fetchList}
          \<and> goroutines s = replicate (length fetchList) Finished
          \<and> waitGroup s = 0
          \<and> \<not> panicked s
          \<and> length schedule = 2 * length fetchList + 1"
    if run: "RestoreList D restorer fetchList destinationPath options schedule w = Some s"
      and ret: "returned s = Some res"
    for schedule s res
  proof -
    from Inv_RestoreList [OF assms run]
    have I: "Inv D restorer fetchList destinationPath options w schedule s" .
    from ret have ret': "returned s \<noteq> None" by simp
    note fin = Inv_all_finished [OF I ret']
    note rr = Inv_returned [OF I ret]
    have "\<forall>i < length fetchList. WalName (elements res ! i) = fetchList ! i"
      using Inv_slots(1) [OF I] fin(1) rr(2) by simp
    with fin rr(2,3) Inv_distinct [OF I] Inv_length [OF I ret'] show ?thesis
      by simp
  qed
  have 3: "\<not> panicked s
          \<and> (\<exists>es s'. RestoreList D restorer fetchList destinationPath options (schedule @ es) w
                         = Some s' \<and> returned s' \<noteq> None)"
    if "RestoreList D restorer fetchList destinationPath options schedule w = Some s"
    for schedule s
    using RestoreList_never_dies(1,2) [OF assms that] by blast
  from 2 have all_returns: "\<forall>schedule s res.
          RestoreList D restorer fetchList destinationPath options schedule w = Some s
          \<and> returned s = Some res \<longrightarrow>
            length (elements res) = length fetchList
          \<and> (\<forall>i < length fetchList. WalName (elements res ! i) = fetchList ! i)
          \<and> res = resultList s
          \<and> distinct (run_order schedule)
          \<and> set (run_order schedule) = {..<length fetchList}
          \<and> goroutines s = replicate (length fetchList) Finished
          \<and> waitGroup s = 0
          \<and> \<not> panicked s
          \<and> length schedule = 2 * length fetchList + 1"
    by blast
  from 3 have all_states: "\<forall>schedule s.
          RestoreList D restorer fetchList destinationPath options schedule w = Some s \<longrightarrow>
            \<not> panicked s
          \<and> (\<exists>es s'. RestoreList D restorer fetchList destinationPath options (schedule @ es) w
                         = Some s' \<and> returned s' \<noteq> None)"
    by blast
  from 1 all_returns all_states show ?thesis
    by - (intro conjI; assumption)
qed

lemma returned_slots:
  assumes "valid_slice (heap w) options"
    and "RestoreList D restorer fetchList destinationPath options schedule w = Some s"
    and "returned s = Some res"
  shows "\<exists>new. execs (world s) = execs w @ new
      \<and> list_all2 (fetch_of D restorer fetchList destinationPath (elems (heap w) options)
                     (elements res)) (run_order schedule) new
      \<and> distinct (run_order schedule)
      \<and> set (run_order schedule) = {..<length fetchList}
      \<and> length (elements res) = length fetchList
      \<and> (\<forall>i < length fetchList.
            \<exists>x \<in> set new. fetch_of D restorer fetchList destinationPath
                             (elems (heap w) options) (elements res) i x)"
proof -
  from Inv_RestoreList [OF assms(1,2)]
  have I: "Inv D restorer fetchList destinationPath options w schedule s" .
  from assms(3) have ret: "returned s \<noteq> None" by simp
  note fin = Inv_all_finished [OF I ret]
  note rr = Inv_returned [OF I assms(3)]
  from Inv_execs [OF I] rr(2) obtain new where ex: "execs (world s) = execs w @ new"
    and all2: "list_all2 (fetch_of D restorer fetchList destinationPath (elems (heap w) options)
                     (elements res)) (run_order schedule) new"
    by auto
  note dist = Inv_distinct(1) [OF I]
  have "\<exists>x \<in> set new. fetch_of D restorer fetchList destinationPath
                             (elems (heap w) options) (elements res) i x"
    if "i < length fetchList" for i
  proof -
    from that fin(1) have "i \<in> set (run_order schedule)" by simp
    then obtain k where k: "k < length (run_order schedule)" "run_order schedule ! k = i"
      by (auto simp: in_set_conv_nth)
    from all2 k have "fetch_of D restorer fetchList destinationPath
                             (elems (heap w) options) (elements res) i (new ! k)"
      by (auto dest: list_all2_nthD)
    moreover from all2 k have "new ! k \<in> set new"
      by (auto dest: list_all2_lengthD)
    ultimately show ?thesis by blast
  qed
  with ex all2 dist fin(1) rr(3) show ?thesis by blast
qed

text \<open>
  C1. Wherever a schedule has led the call, whatever the outcomes of the fetches made so
  far (so also when the fetch of an index i >= 1 has failed): the process has not
  panicked, the call can go on to its return, and unless it has returned it can take a
  step, so no failure cuts the call short; the fetch tool has been run once for every
  goroutine that has finished, and the \<open>Err\<close> of slot \<open>i\<close> is the error of the run made
  for index \<open>i\<close>, wrapped by \<open>Restore\<close>, or nil when that run succeeded; the slots of
  the other indices are untouched. Once the call has returned: the value returned is
  the result slice, of the length of the batch, and no error besides; the fetch tool has
  been run once for every index of the batch, index 0 included; and every slot holds the
  outcome of the run made for its own index. A failure is thus recorded in the slot of
  its own index only, and every other slot reports its own outcome.
\<close>

theorem RestoreList_failure_stays_in_its_slot:
  assumes "valid_slice (heap w) options"
    and "RestoreList D restorer fetchList destinationPath options schedule w = Some s"
  shows "\<not> panicked s
    \<and> (\<exists>es s'. RestoreList D restorer fetchList destinationPath options (schedule @ es) w
                   = Some s' \<and> returned s' \<noteq> None)
    \<and> (returned s = None \<longrightarrow>
          (\<exists>e s'. step D restorer fetchList destinationPath options e s = Some s'))
    \<and> (\<exists>new. execs (world s) = execs w @ new
          \<and> list_all2 (fetch_of D restorer fetchList destinationPath (elems (heap w) options)
                         (elements (resultList s))) (run_order schedule) new)
    \<and> distinct (run_order schedule)
    \<and> (\<forall>i < length fetchList. i \<notin> set (run_order schedule) \<longrightarrow>
          elements (resultList s) ! i = zeroResult)
    \<and> (\<forall>res. returned s = Some res \<longrightarrow>
          (\<exists>new. execs (world s) = execs w @ new
            \<and> list_all2 (fetch_of D restorer fetchList destinationPath (elems (heap w) options)
                           (elements res)) (run_order schedule) new
            \<and> distinct (run_order schedule)
            \<and> set (run_order schedule) = {..<length fetchList}
            \<and> length (elements res) = length fetchList
            \<and> (\<forall>i < length fetchList.
                  \<exists>x \<in> set new. fetch_of D restorer fetchList destinationPath
                                   (elems (heap w) options) (elements res) i x)))"
proof -
  from Inv_RestoreList [OF assms]
  have I: "Inv D restorer fetchList destinationPath options w schedule s" .
  note alive = RestoreList_never_dies [OF assms]
  from I have z: "\<forall>i < length fetchList. i \<notin> set (run_order schedule) \<longrightarrow>
          elements (resultList s) ! i = zeroResult"
    unfolding Inv_def Let_def by blast
  have "\<exists>new. execs (world s) = execs w @ new
            \<and> list_all2 (fetch_of D restorer fetchList destinationPath (elems (heap w) options)
                           (elements res)) (run_order schedule) new
            \<and> distinct (run_order schedule)
            \<and> set (run_order schedule) = {..<length fetchList}
            \<and> length (elements res) = length fetchList
            \<and> (\<forall>i < length fetchList.
                  \<exists>x \<in> set new. fetch_of D restorer fetchList destinationPath
                                   (elems (heap w) options) (elements res) i x)"
    if "returned s = Some res" for res
    using returned_slots [OF assms that] .
  then have r: "\<forall>res. returned s = Some res \<longrightarrow>
          (\<exists>new. execs (world s) = execs w @ new
            \<and> list_all2 (fetch_of D restorer fetchList destinationPath (elems (heap w) options)
                           (elements res)) (run_order schedule) new
            \<and> distinct (run_order schedule)
            \<and> set (run_order schedule) = {..<length fetchList}
            \<and> length (elements res) = length fetchList
            \<and> (\<forall>i < length fetchList.
                  \<exists>x \<in> set new. fetch_of D restorer fetchList destinationPath
                                   (elems (heap w) options) (elements res) i x))"
    by blast
  from alive Inv_execs [OF I] Inv_distinct(1) [OF I] z r show ?thesis
    by - (intro conjI; assumption)
qed

text \<open>
  C2. Whenever the call has returned for a batch that is not empty: the result of index
  0 records the destination path the call was given, the result of every index i >= 1
  records the spool's file name for \<open>batch[i]\<close>, and the run of the fetch tool made for
  index \<open>i\<close> has as its arguments the options, then \<open>batch[i]\<close>, then the destination
  recorded for \<open>i\<close>; there is one such run for every index.
\<close>

theorem RestoreList_destinations:
  assumes "valid_slice (heap w) options"
    and "RestoreList D restorer fetchList destinationPath options schedule w = Some s"
    and "returned s = Some res"
    and "fetchList \<noteq> []"
  shows "DestinationPath (elements res ! 0) = destinationPath
    \<and> (\<forall>i. 1 \<le> i \<and> i < length fetchList \<longrightarrow>
          DestinationPath (elements res ! i)
            = spool_FileName D (spool restorer) (fetchList ! i))
    \<and> (\<exists>new. execs (world s) = execs w @ new
          \<and> list_all2 (\<lambda>i x. Args (exec_cmd x)
                = BarmanCloudWalRestore D # elems (heap w) options
                    @ [fetchList ! i, DestinationPath (elements res ! i)])
              (run_order schedule) new)
    \<and> distinct (run_order schedule)
    \<and> set (run_order schedule) = {..<length fetchList}"
proof -
  from Inv_RestoreList [OF assms(1,2)]
  have I: "Inv D restorer fetchList destinationPath options w schedule s" .
  from assms(3) have ret: "returned s \<noteq> None" by simp
  note fin = Inv_all_finished [OF I ret]
  note rr = Inv_returned [OF I assms(3)]
  from Inv_slots(2) [OF I] rr(2) fin(1)
  have d: "\<forall>i < length fetchList. DestinationPath (elements res ! i)
      = destination D restorer fetchList destinationPath i"
    by simp
  from Inv_execs [OF I] rr(2) obtain new where ex: "execs (world s) = execs w @ new"
    and all2: "list_all2 (fetch_of D restorer fetchList destinationPath (elems (heap w) options)
                     (elements res)) (run_order schedule) new"
    by auto
  note dist = Inv_distinct(1) [OF I]
  from all2 have "list_all2 (\<lambda>i x. Args (exec_cmd x)
                = BarmanCloudWalRestore D # elems (heap w) options
                    @ [fetchList ! i, DestinationPath (elements res ! i)])
              (run_order schedule) new"
  proof (rule list.rel_mono_strong)
    fix i x
    assume "i \<in> set (run_order schedule)"
      and "fetch_of D restorer fetchList destinationPath (elems (heap w) options)
                     (elements res) i x"
    with fin(1) d show "Args (exec_cmd x)
                = BarmanCloudWalRestore D # elems (heap w) options
                    @ [fetchList ! i, DestinationPath (elements res ! i)]"
      by (simp add: fetch_of_def invocation_def)
  qed
  with ex have "\<exists>new. execs (world s) = execs w @ new
          \<and> list_all2 (\<lambda>i x. Args (exec_cmd x)
                = BarmanCloudWalRestore D # elems (heap w) options
                    @ [fetchList ! i, DestinationPath (elements res ! i)])
              (run_order schedule) new"
    by blast
  moreover from d assms(4) have "DestinationPath (elements res ! 0) = destinationPath"
    by (simp add: destination_def)
  moreover from d have "\<forall>i. 1 \<le> i \<and> i < length fetchList \<longrightarrow>
          DestinationPath (elements res ! i)
            = spool_FileName D (spool restorer) (fetchList ! i)"
    by (simp add: destination_def)
  ultimately show ?thesis using dist fin(1) by blast
qed

lemma unit_entries_cases:
  assumes "e \<in> set (unit_entries opts i r)"
  shows "(level e = InfoLevel \<and> Err r = None \<and> e = restored_entry r)
       \<or> (level e = WarningLevel \<and> Err r \<noteq> None \<and> i = 0 \<and> e = failed_entry opts r)"
  using assms by (auto simp: unit_entries_def restored_entry_def failed_entry_def split: if_splits)

text \<open>
  C5. Whenever the call has returned, the entries it has written through \<open>contextLog\<close>
  are those of its units, in the order of completion. Among them there is a warning
  exactly when the batch is not empty and the fetch of index 0 has failed; a warning
  carries the segment name, the options, the start and end times, the elapsed time and
  the error of index 0. A unit of index i >= 1 whose fetch has failed contributes no
  entry. Every index whose fetch has succeeded has its informational entry, and every
  informational entry is that of an index whose fetch has succeeded. (The output of
  the fetch tool, which \<open>execlog.RunStreaming\<close> passes on as the tool produces it, does
  not go through \<open>contextLog\<close>: it is part of the tool's effect outside.)
\<close>

theorem RestoreList_log_entries:
  assumes "valid_slice (heap w) options"
    and "RestoreList D restorer fetchList destinationPath options schedule w = Some s"
    and "returned s = Some res"
  shows "\<exists>new. contextLog (world s) = contextLog w @ new
    \<and> new = concat (map (\<lambda>i. unit_entries (elems (heap w) options) i (elements res ! i))
                      (run_order schedule))
    \<and> ((\<exists>e \<in> set new. level e = WarningLevel)
          \<longleftrightarrow> fetchList \<noteq> [] \<and> Err (elements res ! 0) \<noteq> None)
    \<and> (\<forall>e \<in> set new. level e = WarningLevel \<longrightarrow>
          msg e = ''Failed restoring WAL: PostgreSQL will retry if needed''
        \<and> keysAndValues e =
            [(''walName'', VString (fetchList ! 0)),
             (''options'', VStrings (elems (heap w) options)),
             (''startTime'', VTime (StartTime (elements res ! 0))),
             (''endTime'', VTime (EndTime (elements res ! 0))),
             (''elapsedWalTime'',
                VDuration (Sub (EndTime (elements res ! 0)) (StartTime (elements res ! 0)))),
             (''error'', VError (the (Err (elements res ! 0))))])
    \<and> (\<forall>i. 1 \<le> i \<and> i < length fetchList \<and> Err (elements res ! i) \<noteq> None \<longrightarrow>
          unit_entries (elems (heap w) options) i (elements res ! i) = [])
    \<and> (\<forall>i < length fetchList. Err (elements res ! i) = None \<longrightarrow>
          restored_entry (elements res ! i) \<in> set new)
    \<and> (\<forall>e \<in> set new. level e = InfoLevel \<longrightarrow>
          (\<exists>i < length fetchList. Err (elements res ! i) = None
             \<and> e = restored_entry (elements res ! i)))"
proof -
  define opts where "opts = elems (heap w) options"
  define rs where "rs = elements res"
  define new where "new = concat (map (\<lambda>i. unit_entries opts i (rs ! i)) (run_order schedule))"
  from Inv_RestoreList [OF assms(1,2)]
  have I: "Inv D restorer fetchList destinationPath options w schedule s" .
  from assms(3) have ret: "returned s \<noteq> None" by simp
  note fin = Inv_all_finished [OF I ret]
  note rr = Inv_returned [OF I assms(3)]
  from Inv_log [OF I] rr(2) have log: "contextLog (world s) = contextLog w @ new"
    by (simp add: new_def opts_def rs_def)
  have mem: "e \<in> set new \<longleftrightarrow> (\<exists>i < length fetchList. e \<in> set (unit_entries opts i (rs ! i)))"
    for e
    using fin(1) by (auto simp: new_def)
  from Inv_slots(1) [OF I] fin(1) rr(2) have wn: "fetchList \<noteq> [] \<Longrightarrow> WalName (rs ! 0) = fetchList ! 0"
    by (simp add: rs_def)
  have a: "(\<exists>e \<in> set new. level e = WarningLevel) \<longleftrightarrow> fetchList \<noteq> [] \<and> Err (rs ! 0) \<noteq> None"
  proof
    assume "\<exists>e \<in> set new. level e = WarningLevel"
    then obtain e i where "i < length fetchList" "e \<in> set (unit_entries opts i (rs ! i))"
      "level e = WarningLevel"
      using mem by blast
    with unit_entries_cases [of e opts i "rs ! i"]
    show "fetchList \<noteq> [] \<and> Err (rs ! 0) \<noteq> None" by auto
  next
    assume h: "fetchList \<noteq> [] \<and> Err (rs ! 0) \<noteq> None"
    then have "failed_entry opts (rs ! 0) \<in> set (unit_entries opts 0 (rs ! 0))"
      by (auto simp: unit_entries_def)
    with h have "failed_entry opts (rs ! 0) \<in> set new"
      using mem by auto
    moreover have "level (failed_entry opts (rs ! 0)) = WarningLevel"
      by (simp add: failed_entry_def)
    ultimately show "\<exists>e \<in> set new. level e = WarningLevel"
      by blast
  qed
  have b: "msg e = ''Failed restoring WAL: PostgreSQL will retry if needed''
        \<and> keysAndValues e =
            [(''walName'', VString (fetchList ! 0)),
             (''options'', VStrings opts),
             (''startTime'', VTime (StartTime (rs ! 0))),
             (''endTime'', VTime (EndTime (rs ! 0))),
             (''elapsedWalTime'', VDuration (Sub (EndTime (rs ! 0)) (StartTime (rs ! 0)))),
             (''error'', VError (the (Err (rs ! 0))))]"
    if "e \<in> set new" "level e = WarningLevel" for e
  proof -
    from that obtain i where i: "i < length fetchList" "e \<in> set (unit_entries opts i (rs ! i))"
      using mem by blast
    with unit_entries_cases [of e opts i "rs ! i"] that(2)
    have "i = 0" "e = failed_entry opts (rs ! 0)" by auto
    with i wn show ?thesis by (auto simp: failed_entry_def)
  qed
  have c: "unit_entries opts i (rs ! i) = []"
    if "1 \<le> i \<and> i < length fetchList \<and> Err (rs ! i) \<noteq> None" for i
    using that by (simp add: unit_entries_def)
  have d: "restored_entry (rs ! i) \<in> set new" if "i < length fetchList" "Err (rs ! i) = None" for i
    using that mem by (auto simp: unit_entries_def)
  have e: "\<exists>i < length fetchList. Err (rs ! i) = None \<and> e = restored_entry (rs ! i)"
    if "e \<in> set new" "level e = InfoLevel" for e
  proof -
    from that obtain i where i: "i < length fetchList" "e \<in> set (unit_entries opts i (rs ! i))"
      using mem by blast
    with unit_entries_cases [of e opts i "rs ! i"] that(2) show ?thesis by auto
  qed
  from log a b c d e show ?thesis
    unfolding opts_def rs_def new_def by blast
qed

text \<open>
  C10. \<open>Restore\<close> does not write to the array of the options it is given, nor to any
  other array the heap held before the call: it appends to a copy in a fresh array. So
  after a call of \<open>Restore\<close>, and in every state of a call of \<open>RestoreList\<close>, the
  arrays of the heap of before are unchanged, the spare capacity after the options
  included, and the options show the same elements.
\<close>

theorem Restore_leaves_base_options:
  assumes "valid_slice (heap w) options"
  shows "(\<forall>walName destinationPath err w'.
            Restore D restorer walName destinationPath options w = Some (err, w') \<longrightarrow>
              take (length (heap w)) (heap w') = heap w
            \<and> elems (heap w') options = elems (heap w) options)
    \<and> (\<forall>fetchList destinationPath schedule s.
            RestoreList D restorer fetchList destinationPath options schedule w = Some s \<longrightarrow>
              take (length (heap w)) (heap (world s)) = heap w
            \<and> elems (heap (world s)) options = elems (heap w) options)"
proof -
  have 1: "take (length (heap w)) (heap w') = heap w
            \<and> elems (heap w') options = elems (heap w) options"
    if "Restore D restorer walName destinationPath options w = Some (err, w')"
    for walName destinationPath err w'
  proof -
    from that have "take (length (heap w)) (heap w') = heap w"
      unfolding Restore_eq [OF assms] Let_def by auto
    with elems_heap_prefix [OF assms this] show ?thesis by simp
  qed
  have 2: "take (length (heap w)) (heap (world s)) = heap w
            \<and> elems (heap (world s)) options = elems (heap w) options"
    if "RestoreList D restorer fetchList destinationPath options schedule w = Some s"
    for fetchList destinationPath schedule s
  proof -
    from Inv_heap [OF Inv_RestoreList [OF assms that]]
    have "take (length (heap w)) (heap (world s)) = heap w" .
    with elems_heap_prefix [OF assms this] show ?thesis by simp
  qed
  from 1 2 show ?thesis by blast
qed

subsection \<open>The batch of three, evaluated\<close>

lemma demo_run:
  "RestoreList demo_deps demo_restorer demo_batch ''D'' demo_options demo_schedule demo_world
     = Some demo_final"
  by code_simp

lemma demo_run_B:
  "RestoreList demo_deps demo_restorer [''B''] ''D'' demo_options [Spawn, Run 0, Return] demo_world
     = Some demo_final_B"
  by code_simp

lemma demo_returned: "returned demo_final = Some (Results demo_results)"
  by (simp add: demo_final_def)

lemma demo_order: "run_order demo_schedule = [1, 2, 0]"
  by (simp add: demo_schedule_def)

theorem RestoreList_results_in_input_order_witness:
  "valid_slice (heap demo_world) demo_options
   \<and> RestoreList demo_deps demo_restorer demo_batch ''D'' demo_options demo_schedule demo_world
       = Some demo_final
   \<and> returned demo_final = Some (Results demo_results)
   \<and> map WalName demo_results = demo_batch
   \<and> run_order demo_schedule = [1, 2, 0]
   \<and> goroutines demo_final = [Finished, Finished, Finished]"
proof -
  from RestoreList_results_in_input_order [OF demo_valid, of demo_deps demo_restorer
      demo_batch "''D''"] demo_run demo_returned
  have "length (elements (Results demo_results)) = length demo_batch"
    and "\<forall>i < length demo_batch. WalName (elements (Results demo_results) ! i) = demo_batch ! i"
    and "goroutines demo_final = replicate (length demo_batch) Finished"
    by blast+
  then have "map WalName demo_results = demo_batch"
    and "goroutines demo_final = [Finished, Finished, Finished]"
    by (simp_all add: list_eq_iff_nth_eq demo_batch_def)
  with demo_valid demo_run demo_returned demo_order show ?thesis by simp
qed

theorem RestoreList_failure_stays_in_its_slot_witness:
  "valid_slice (heap demo_world) demo_options
   \<and> RestoreList demo_deps demo_restorer demo_batch ''D'' demo_options demo_schedule demo_world
       = Some demo_final
   \<and> returned demo_final = Some (Results demo_results)
   \<and> \<not> panicked demo_final
   \<and> list_all2 (fetch_of demo_deps demo_restorer demo_batch ''D'' [''-v''] demo_results)
       [1, 2, 0] demo_execs
   \<and> map exec_err demo_execs = [Some (ErrorValue 1 ''exit 1''), None, None]
   \<and> map Err demo_results = [None, Some (restore_error demo_deps (ErrorValue 1 ''exit 1'')), None]
   \<and> RestoreList demo_deps demo_restorer demo_batch ''D'' demo_options [Spawn, Spawn, Run 1]
         demo_world \<noteq> None
   \<and> \<not> panicked (the (RestoreList demo_deps demo_restorer demo_batch ''D'' demo_options
                         [Spawn, Spawn, Run 1] demo_world))
   \<and> (\<exists>es s'. RestoreList demo_deps demo_restorer demo_batch ''D'' demo_options
                  ([Spawn, Spawn, Run 1] @ es) demo_world = Some s'
         \<and> returned s' \<noteq> None)"
proof -
  note at_return = RestoreList_failure_stays_in_its_slot [OF demo_valid demo_run]
  from at_return have alive: "\<not> panicked demo_final" by blast
  from at_return demo_returned
  obtain new where "execs (world demo_final) = execs demo_world @ new"
    and "list_all2 (fetch_of demo_deps demo_restorer demo_batch ''D''
           (elems (heap demo_world) demo_options) (elements (Results demo_results)))
         (run_order demo_schedule) new"
    by blast
  then have "list_all2 (fetch_of demo_deps demo_restorer demo_batch ''D'' [''-v''] demo_results)
       [1, 2, 0] demo_execs"
    by (simp add: demo_final_def demo_world_def demo_options_def demo_order)
  moreover have "map exec_err demo_execs = [Some (ErrorValue 1 ''exit 1''), None, None]"
    by (simp add: demo_execs_def)
  moreover have "map Err demo_results
      = [None, Some (restore_error demo_deps (ErrorValue 1 ''exit 1'')), None]"
    by (simp add: demo_results_def restore_error_def demo_deps_def)
  moreover have mid: "RestoreList demo_deps demo_restorer demo_batch ''D'' demo_options
      [Spawn, Spawn, Run 1] demo_world \<noteq> None"
    by code_simp
  moreover from mid obtain sm where sm: "RestoreList demo_deps demo_restorer demo_batch ''D''
      demo_options [Spawn, Spawn, Run 1] demo_world = Some sm"
    by blast
  note in_flight = RestoreList_failure_stays_in_its_slot [OF demo_valid sm]
  from in_flight have "\<not> panicked sm"
    and "\<exists>es s'. RestoreList demo_deps demo_restorer demo_batch ''D'' demo_options
                  ([Spawn, Spawn, Run 1] @ es) demo_world = Some s'
         \<and> returned s' \<noteq> None"
    by blast+
  ultimately show ?thesis
    using demo_valid demo_run demo_returned alive sm by simp
qed

theorem RestoreList_destinations_witness:
  "valid_slice (heap demo_world) demo_options
   \<and> RestoreList demo_deps demo_restorer demo_batch ''D'' demo_options demo_schedule demo_world
       = Some demo_final
   \<and> returned demo_final = Some (Results demo_results)
   \<and> demo_batch \<noteq> []
   \<and> DestinationPath (demo_results ! 0) = ''D''
   \<and> DestinationPath (demo_results ! 1) = ''sp/B''
   \<and> DestinationPath (demo_results ! 2) = ''sp/C''
   \<and> map (Args \<circ> exec_cmd) demo_execs
       = [[''fetch'', ''-v'', ''B'', ''sp/B''], [''fetch'', ''-v'', ''C'', ''sp/C''],
          [''fetch'', ''-v'', ''A'', ''D'']]"
proof -
  have ne: "demo_batch \<noteq> []" by (simp add: demo_batch_def)
  from RestoreList_destinations [OF demo_valid demo_run demo_returned ne]
  have 0: "DestinationPath (elements (Results demo_results) ! 0) = ''D''"
    and i: "\<forall>i. 1 \<le> i \<and> i < length demo_batch \<longrightarrow>
          DestinationPath (elements (Results demo_results) ! i)
            = spool_FileName demo_deps (spool demo_restorer) (demo_batch ! i)"
    by blast+
  from i have "DestinationPath (demo_results ! 1) = ''sp/B''"
    "DestinationPath (demo_results ! 2) = ''sp/C''"
    by (simp_all add: demo_batch_def demo_deps_def demo_restorer_def)
  moreover have "map (Args \<circ> exec_cmd) demo_execs
       = [[''fetch'', ''-v'', ''B'', ''sp/B''], [''fetch'', ''-v'', ''C'', ''sp/C''],
          [''fetch'', ''-v'', ''A'', ''D'']]"
    by (simp add: demo_execs_def)
  ultimately show ?thesis
    using 0 ne demo_valid demo_run demo_returned by simp
qed

theorem RestoreList_log_entries_witness:
  "valid_slice (heap demo_world) demo_options
   \<and> RestoreList demo_deps demo_restorer demo_batch ''D'' demo_options demo_schedule demo_world
       = Some demo_final
   \<and> returned demo_final = Some (Results demo_results)
   \<and> contextLog (world demo_final)
       = [restored_entry (demo_results ! 2), restored_entry (demo_results ! 0)]
   \<and> RestoreList demo_deps demo_restorer [''B''] ''D'' demo_options [Spawn, Run 0, Return]
         demo_world = Some demo_final_B
   \<and> map level (contextLog (world demo_final_B)) = [WarningLevel]"
proof -
  from RestoreList_log_entries [OF demo_valid demo_run demo_returned]
  have "contextLog (world demo_final) = contextLog demo_world
      @ concat (map (\<lambda>i. unit_entries (elems (heap demo_world) demo_options) i
                            (elements (Results demo_results) ! i)) (run_order demo_schedule))"
    by blast
  then have 1: "contextLog (world demo_final)
       = [restored_entry (demo_results ! 2), restored_entry (demo_results ! 0)]"
    by (simp add: demo_order unit_entries_def demo_results_def) (simp add: demo_world_def)
  have r: "returned demo_final_B = Some (resultList demo_final_B)"
    by (simp add: demo_final_B_def)
  from RestoreList_log_entries [OF demo_valid demo_run_B r]
  have "(\<exists>e \<in> set (contextLog (world demo_final_B)). level e = WarningLevel)
      \<longleftrightarrow> [''B''] \<noteq> [] \<and> Err (elements (resultList demo_final_B) ! 0) \<noteq> None"
    by (auto simp: demo_world_def)
  then have "\<exists>e \<in> set (contextLog (world demo_final_B)). level e = WarningLevel"
    by (simp add: demo_final_B_def demo_result_B_def)
  then have 2: "map level (contextLog (world demo_final_B)) = [WarningLevel]"
    by (simp add: demo_final_B_def)
  from 1 2 demo_valid demo_run demo_run_B demo_returned show ?thesis by simp
qed

theorem Restore_leaves_base_options_witness:
  "valid_slice (heap demo_world) demo_options
   \<and> Restore demo_deps demo_restorer ''B'' ''D'' demo_options demo_world \<noteq> None
   \<and> take 1 (heap (snd (the (Restore demo_deps demo_restorer ''B'' ''D'' demo_options demo_world))))
       = [[''-v'', ''x'', ''y'']]
   \<and> elems (heap (snd (the (Restore demo_deps demo_restorer ''B'' ''D'' demo_options demo_world))))
        demo_options = [''-v'']
   \<and> RestoreList demo_deps demo_restorer demo_batch ''D'' demo_options demo_schedule demo_world
       = Some demo_final
   \<and> take 1 (heap (world demo_final)) = [[''-v'', ''x'', ''y'']]
   \<and> elems (heap (world demo_final)) demo_options = [''-v'']"
proof -
  note t = Restore_leaves_base_options [OF demo_valid, of demo_deps demo_restorer]
  from t demo_Restore_B
  have "take (length (heap demo_world)) (heap (snd (the
          (Restore demo_deps demo_restorer ''B'' ''D'' demo_options demo_world)))) = heap demo_world"
    and "elems (heap (snd (the
          (Restore demo_deps demo_restorer ''B'' ''D'' demo_options demo_world)))) demo_options
        = elems (heap demo_world) demo_options"
    by (metis option.sel snd_conv)+
  moreover from t demo_run
  have "take (length (heap demo_world)) (heap (world demo_final)) = heap demo_world"
    and "elems (heap (world demo_final)) demo_options = elems (heap demo_world) demo_options"
    by blast+
  moreover have "length (heap demo_world) = 1" "heap demo_world = [[''-v'', ''x'', ''y'']]"
    by (simp_all add: demo_world_def)
  ultimately show ?thesis
    using demo_valid demo_run demo_elems by (simp add: demo_Restore_B)
qed

end
